theory Spec2Isabelle
  imports Main "HOL-Library.Sublist" "HOL-Library.While_Combinator" "HOL-Library.Word"
begin

section \<open>Pointers and standard containers\<close>

text \<open>
  \<open>Decl*\<close> and \<open>const Type*\<close> are 64-bit addresses of nodes owned by the front end. A
  pointer that may be null is an \<open>option\<close>: \<open>None\<close> is \<open>nullptr\<close>. \<open>std::set<Decl*>\<close>
  orders its elements by address.
\<close>

type_synonym decl = "64 word"
type_synonym ty = "64 word"

text \<open>
  \<open>std::set<T, Compare>::insert\<close>: the set is the list of its elements in the order of
  the comparer; an element equivalent to one already present is not inserted.
\<close>

fun set_insert :: "('a \<Rightarrow> 'a \<Rightarrow> bool) \<Rightarrow> 'a \<Rightarrow> 'a list \<Rightarrow> 'a list" where
  "set_insert lt x [] = [x]"
| "set_insert lt x (y # ys) =
     (if lt x y then x # y # ys
      else if lt y x then y # set_insert lt x ys
      else y # ys)"

text \<open>
  \<open>std::map<K, V>\<close> as the list of its entries in key order. \<open>map_modify k f d m\<close> is
  \<open>f(m[k])\<close> stored back, where \<open>operator[]\<close> first creates the entry with the
  default-constructed value \<open>d\<close> when the key is missing.
\<close>

fun map_modify :: "'k::linorder \<Rightarrow> ('v \<Rightarrow> 'v) \<Rightarrow> 'v \<Rightarrow> ('k \<times> 'v) list \<Rightarrow> ('k \<times> 'v) list" where
  "map_modify k f d [] = [(k, f d)]"
| "map_modify k f d ((k', v) # m) =
     (if k < k' then (k, f d) # (k', v) # m
      else if k' < k then (k', v) # map_modify k f d m
      else (k', f v) # m)"

definition map_lookup :: "('k \<times> 'v list) list \<Rightarrow> 'k \<Rightarrow> 'v list" where
  "map_lookup m k = (case map_of m k of None \<Rightarrow> [] | Some v \<Rightarrow> v)"

section \<open>Source locations, ranges and rewrite requests\<close>

text \<open>
  A \<open>clang::SourceLocation\<close> is an opaque identifier whose value 0 is the invalid
  location; \<open>operator<\<close> compares the identifiers. For locations of one file the order
  of the identifiers is the order of the translation unit.
\<close>

type_synonym SourceLocation = nat

definition isValid :: "SourceLocation \<Rightarrow> bool" where
  "isValid l = (l \<noteq> 0)"

text \<open>\<open>SourceManager::isBeforeInTranslationUnit\<close>, for two locations of the main file.\<close>

definition isBeforeInTranslationUnit :: "SourceLocation \<Rightarrow> SourceLocation \<Rightarrow> bool" where
  "isBeforeInTranslationUnit lhs rhs = (lhs < rhs)"

record SourceRange =
  getBegin :: SourceLocation
  getEnd :: SourceLocation

definition SourceRange :: "SourceLocation \<Rightarrow> SourceLocation \<Rightarrow> SourceRange" where
  "SourceRange b e = \<lparr>getBegin = b, getEnd = e\<rparr>"

text \<open>\<open>clang::Rewriter::RewriteOptions\<close>; the engine only ever sets \<open>RemoveLineIfEmpty\<close>.\<close>

record RewriteOptions =
  RemoveLineIfEmpty :: bool

text \<open>\<open>struct RewriteItem\<close> of SmartRewriter.h.\<close>

record RewriteItem =
  item_range :: SourceRange
  item_opts :: RewriteOptions

section \<open>SmartRewriter\<close>

text \<open>
  SmartRewriter.h declares the comparers and the class; their bodies are in
  SmartRewriter.cpp, which is not among the sources. The definitions of this section
  follow section 4.6 of the specification.
\<close>

text \<open>Modelled from the spec: \<open>SourceLocationComparer::operator()\<close>, the order of the
  translation unit (\<open>isBeforeInTranslationUnit\<close>).\<close>

definition SourceLocationComparer :: "SourceLocation \<Rightarrow> SourceLocation \<Rightarrow> bool" where
  "SourceLocationComparer lhs rhs = isBeforeInTranslationUnit lhs rhs"

text \<open>Modelled from the spec: \<open>SourceRangeComparer::operator()\<close>, the total order on
  source ranges keyed by (begin, end).\<close>

definition SourceRangeComparer :: "SourceRange \<Rightarrow> SourceRange \<Rightarrow> bool" where
  "SourceRangeComparer lhs rhs =
     (SourceLocationComparer (getBegin lhs) (getBegin rhs)
      \<or> (getBegin lhs = getBegin rhs \<and> SourceLocationComparer (getEnd lhs) (getEnd rhs)))"

text \<open>Modelled from the spec: \<open>RewriteItemComparer::operator()\<close>, the same order on the
  ranges of two items.\<close>

definition RewriteItemComparer :: "RewriteItem \<Rightarrow> RewriteItem \<Rightarrow> bool" where
  "RewriteItemComparer lhs rhs = SourceRangeComparer (item_range lhs) (item_range rhs)"

text \<open>The private members \<open>removed\<close> and \<open>changesApplied\<close> of the class.\<close>

record SmartRewriter =
  removed :: "RewriteItem list"
  changesApplied :: bool

text \<open>Modelled from the spec: the constructor \<open>SmartRewriter::SmartRewriter\<close>; nothing
  is accepted yet.\<close>

definition SmartRewriter_new :: SmartRewriter where
  "SmartRewriter_new = \<lparr>removed = [], changesApplied = False\<rparr>"

text \<open>Modelled from the spec: two ranges overlap when neither ends before the other
  begins.\<close>

definition overlaps :: "SourceRange \<Rightarrow> SourceRange \<Rightarrow> bool" where
  "overlaps a b =
     (\<not> SourceLocationComparer (getEnd a) (getBegin b)
      \<and> \<not> SourceLocationComparer (getEnd b) (getBegin a))"

text \<open>Modelled from the spec: \<open>SmartRewriter::canRemoveRange\<close>, true iff no previously
  accepted range overlaps \<open>r\<close>.\<close>

definition canRemoveRange :: "SmartRewriter \<Rightarrow> SourceRange \<Rightarrow> bool" where
  "canRemoveRange rw r = list_all (\<lambda>it. \<not> overlaps (item_range it) r) (removed rw)"

text \<open>Modelled from the spec: recording an item in the accepted set, which is kept in
  the order of \<open>RewriteItemComparer\<close>.\<close>

fun record_item :: "RewriteItem \<Rightarrow> RewriteItem list \<Rightarrow> RewriteItem list" where
  "record_item x [] = [x]"
| "record_item x (y # ys) =
     (if x = y then y # ys
      else if RewriteItemComparer x y then x # y # ys
      else y # record_item x ys)"

text \<open>Modelled from the spec: \<open>SmartRewriter::removeRange\<close>; the returned pair is the
  result and the rewriter afterwards.\<close>

definition removeRange ::
  "SmartRewriter \<Rightarrow> SourceRange \<Rightarrow> RewriteOptions \<Rightarrow> bool \<times> SmartRewriter" where
  "removeRange rw r opts =
     (if canRemoveRange rw r
      then (True, rw\<lparr>removed := record_item \<lparr>item_range = r, item_opts = opts\<rparr> (removed rw)\<rparr>)
      else (False, rw))"

text \<open>A sequence of \<open>removeRange\<close> calls on one rewriter; the callers ignore the results.\<close>

definition removeRanges :: "SmartRewriter \<Rightarrow> RewriteItem list \<Rightarrow> SmartRewriter" where
  "removeRanges rw items =
     foldl (\<lambda>rw it. snd (removeRange rw (item_range it) (item_opts it))) rw items"

definition nonOverlapping :: "RewriteItem list \<Rightarrow> bool" where
  "nonOverlapping xs =
     list_all (\<lambda>x. list_all (\<lambda>y. x = y \<or> \<not> overlaps (item_range x) (item_range y)) xs) xs"

section \<open>The front end: declarations, types, source manager\<close>

text \<open>
  The dynamic class of a declaration node (\<open>Decl::getKind\<close>), for the classes the engine
  distinguishes. A class that is not listed is represented by its nearest listed base
  class: \<open>VarDecl\<close> stands for \<open>VarDecl\<close> and its subclasses other than \<open>ParmVarDecl\<close>,
  \<open>OtherValueDecl\<close> for the remaining subclasses of \<open>ValueDecl\<close>, and \<open>OtherDecl\<close> for every
  other class.
\<close>

datatype DeclKind =
    TranslationUnitDecl | NamespaceDecl | EmptyDecl | UsingDirectiveDecl
  | TypedefDecl | TypeAliasDecl | TemplateTypeParmDecl | EnumDecl
  | CXXRecordDecl | ClassTemplateSpecializationDecl | ClassTemplatePartialSpecializationDecl
  | TypeAliasTemplateDecl | ClassTemplateDecl | FunctionTemplateDecl
  | FieldDecl | VarDecl | ParmVarDecl | EnumConstantDecl | OtherValueDecl
  | FunctionDecl | CXXMethodDecl | CXXConstructorDecl | CXXDestructorDecl | CXXConversionDecl
  | OtherDecl

text \<open>\<open>isa<C>(decl)\<close> along the class hierarchy of the front end.\<close>

definition isa_CXXMethodDecl :: "DeclKind \<Rightarrow> bool" where
  "isa_CXXMethodDecl k =
     (k = CXXMethodDecl \<or> k = CXXConstructorDecl \<or> k = CXXDestructorDecl \<or> k = CXXConversionDecl)"

definition isa_FunctionDecl :: "DeclKind \<Rightarrow> bool" where
  "isa_FunctionDecl k = (k = FunctionDecl \<or> isa_CXXMethodDecl k)"

definition isa_ClassTemplateSpecializationDecl :: "DeclKind \<Rightarrow> bool" where
  "isa_ClassTemplateSpecializationDecl k =
     (k = ClassTemplateSpecializationDecl \<or> k = ClassTemplatePartialSpecializationDecl)"

definition isa_CXXRecordDecl :: "DeclKind \<Rightarrow> bool" where
  "isa_CXXRecordDecl k = (k = CXXRecordDecl \<or> isa_ClassTemplateSpecializationDecl k)"

text \<open>A raw comment attached to a declaration.\<close>

record RawComment =
  getSourceRange :: SourceRange

text \<open>What every \<open>Decl\<close> answers.\<close>

record Decl =
  getKind :: DeclKind
  getCanonicalDecl :: decl
  getDeclContext :: "decl option"
  getLexicalDeclContext :: "decl option"
  getLocStart :: SourceLocation
  getLocation :: SourceLocation
  getRawCommentForDeclNoCache :: "RawComment option"

datatype TemplatedKind =
    TK_NonTemplate | TK_FunctionTemplate | TK_MemberSpecialization
  | TK_FunctionTemplateSpecialization | TK_DependentFunctionTemplateSpecialization

text \<open>
  \<open>ValueDecl\<close>, \<open>VarDecl\<close>, \<open>FieldDecl\<close>, \<open>FunctionDecl\<close> and \<open>CXXMethodDecl\<close>.
  \<open>getTemplateSpecializationInfo\<close> is the template \<open>specInfo->getTemplate()\<close> when the
  specialization info exists; \<open>getParent\<close> is the record of a method or of a field.
\<close>

record ValueDecl =
  getType :: "ty option"
  isLocalVarDeclOrParm :: bool
  getParent :: "decl option"
  isMain :: bool
  isLateTemplateParsed :: bool
  getTemplatedKind :: TemplatedKind
  getTemplateSpecializationInfo :: "decl option"
  getReturnType :: "ty option"
  getInstantiatedFromMemberFunction :: "decl option"
  doesThisDeclarationHaveABody :: bool
  isExplicitlyDefaulted :: bool
  isDeleted :: bool
  isVirtual :: bool

datatype TemplateSpecializationKind =
    TSK_Undeclared | TSK_ImplicitInstantiation | TSK_ExplicitSpecialization
  | TSK_ExplicitInstantiationDeclaration | TSK_ExplicitInstantiationDefinition

text \<open>\<open>llvm::PointerUnion<ClassTemplateDecl*, ClassTemplatePartialSpecializationDecl*>\<close>.\<close>

datatype SpecializedTemplateOrPartial =
    is_ClassTemplateDecl "decl option"
  | is_ClassTemplatePartialSpecializationDecl "decl option"

text \<open>
  Type declarations: \<open>TypedefNameDecl\<close>, \<open>TypeAliasDecl\<close>, \<open>TemplateTypeParmDecl\<close>,
  \<open>CXXRecordDecl\<close> and \<open>ClassTemplateSpecializationDecl\<close>. \<open>bases\<close> lists
  \<open>base->getType()\<close> from \<open>bases_begin()\<close> to \<open>bases_end()\<close>.
\<close>

record TypeDecl =
  getUnderlyingType :: "ty option"
  getDescribedAliasTemplate :: "decl option"
  hasDefaultArgument :: bool
  getDefaultArgument :: "ty option"
  getDescribedClassTemplate :: "decl option"
  getDestructor :: "decl option"
  getDefinition :: "decl option"
  getTemplateSpecializationKind :: TemplateSpecializationKind
  bases :: "ty option list"
  isCompleteDefinition :: bool
  getSpecializedTemplateOrPartial :: SpecializedTemplateOrPartial

text \<open>Template declarations and using-directives.\<close>

record TemplateDecl =
  getInstantiatedFromMemberTemplate :: "decl option"
  getTemplatedDecl :: "decl option"
  isThisDeclarationADefinition :: bool
  getNominatedNamespace :: "decl option"

datatype TypeClass =
    ElaboratedType | ParenType | ArrayType | PointerType | ReferenceType | TypedefType
  | TemplateSpecializationType | OtherType

datatype TemplateArgument = Type_arg "ty option" | Other_arg

text \<open>
  What a \<open>Type\<close> answers. \<open>getAsTemplateDecl\<close> is
  \<open>getTemplateName().getAsTemplateDecl()\<close>, \<open>getArgs\<close> the arguments \<open>getArg(0)\<close> to
  \<open>getArg(getNumArgs() - 1)\<close>; a \<open>QualType\<close> is its \<open>getTypePtrOrNull()\<close>.
\<close>

record Type =
  getTypeClass :: TypeClass
  getNamedType :: "ty option"
  getInnerType :: "ty option"
  getElementType :: "ty option"
  getPointeeType :: "ty option"
  getAsTagDecl :: "decl option"
  getDecl :: "decl option"
  getAsCXXRecordDecl :: "decl option"
  getAsTemplateDecl :: "decl option"
  getArgs :: "TemplateArgument list"

datatype TokenKind = tok_comma | tok_semi

text \<open>
  The parsed translation unit with its source manager. The first five fields are the
  nodes by address. \<open>getCharacterData\<close> gives the character pointer of a location (null
  is \<open>None\<close>) and the \<open>invalid\<close> flag it sets; \<open>memory\<close> is the byte at a character
  pointer. The last four fields are the helpers of util.h, which is not among the
  sources: they are taken as given.
\<close>

record AST =
  decls :: "decl \<Rightarrow> Decl"
  valueDecls :: "decl \<Rightarrow> ValueDecl"
  typeDecls :: "decl \<Rightarrow> TypeDecl"
  templateDecls :: "decl \<Rightarrow> TemplateDecl"
  types :: "ty \<Rightarrow> Type"
  isInMainFile :: "SourceLocation \<Rightarrow> bool"
  getCharacterData :: "SourceLocation \<Rightarrow> 64 word option \<times> bool"
  memory :: "64 word \<Rightarrow> char"
  getExpansionStart :: "decl \<Rightarrow> SourceLocation"
  getExpansionEnd :: "decl \<Rightarrow> SourceLocation"
  findSemiAfterLocation :: "SourceLocation \<Rightarrow> SourceLocation"
  findTokenAfterLocation :: "SourceLocation \<Rightarrow> TokenKind \<Rightarrow> SourceLocation"

definition kindOf :: "AST \<Rightarrow> decl \<Rightarrow> DeclKind" where
  "kindOf ast d = getKind (decls ast d)"

text \<open>Modelled from the spec: \<open>getExpansionRange\<close> of util.h, the expansion range
  \<open>[begin, end]\<close> of a declaration.\<close>

definition getExpansionRange :: "AST \<Rightarrow> decl \<Rightarrow> SourceRange" where
  "getExpansionRange ast d = SourceRange (getExpansionStart ast d) (getExpansionEnd ast d)"


text \<open>
  C++ exceptions that can leave the engine: \<open>std::runtime_error\<close> with its message, and
  a thrown string literal.
\<close>

datatype exception = runtime_error string | thrown_literal string

section \<open>The dependencies collector\<close>

text \<open>\<open>struct SourceInfo\<close>: what the collector passes to the next stage.\<close>

record SourceInfo =
  uses :: "(decl \<times> decl list) list"
  declsToKeep :: "decl list"
  delayedParsedFunctions :: "decl list"
  staticVariables :: "(SourceLocation \<times> decl list) list"

definition SourceInfo_new :: SourceInfo where
  "SourceInfo_new =
     \<lparr>uses = [], declsToKeep = [], delayedParsedFunctions = [], staticVariables = []\<rparr>"

text \<open>\<open>DependenciesCollector::insertReference\<close>.\<close>

definition insertReference :: "AST \<Rightarrow> decl option \<Rightarrow> decl option \<Rightarrow> SourceInfo \<Rightarrow> SourceInfo" where
  "insertReference ast from to si =
     (case from of
        None \<Rightarrow> si
      | Some f \<Rightarrow>
          (case to of
             None \<Rightarrow> si
           | Some t \<Rightarrow>
               let f' = (if kindOf ast f \<noteq> NamespaceDecl then getCanonicalDecl (decls ast f) else f);
                   t' = (if kindOf ast t \<noteq> NamespaceDecl then getCanonicalDecl (decls ast t) else t)
               in si\<lparr>uses := map_modify f' (set_insert (<) t') [] (uses si)\<rparr>))"

text \<open>The template arguments of kind \<open>TemplateArgument::Type\<close>, as \<open>arg.getAsType()\<close>.\<close>

fun typeArguments :: "TemplateArgument list \<Rightarrow> ty option list" where
  "typeArguments [] = []"
| "typeArguments (Type_arg t # args) = t # typeArguments args"
| "typeArguments (Other_arg # args) = typeArguments args"

text \<open>
  The base specifiers the loop of \<open>insertReferenceToType\<close> runs over: those of the
  definition of the record behind the type, none when there is no record, no definition,
  or the record is the pattern of a class template in an implicit or undeclared
  specialization state.
\<close>

definition basesToWalk :: "AST \<Rightarrow> Type \<Rightarrow> ty option list" where
  "basesToWalk ast T =
     (case getAsCXXRecordDecl T of
        None \<Rightarrow> []
      | Some recordDecl \<Rightarrow>
          (case getDefinition (typeDecls ast recordDecl) of
             None \<Rightarrow> []
           | Some recordDef \<Rightarrow>
               let isTemplated = (getDescribedClassTemplate (typeDecls ast recordDef) \<noteq> None);
                   specKind = getTemplateSpecializationKind (typeDecls ast recordDef)
               in if isTemplated \<and> (specKind = TSK_ImplicitInstantiation
                                      \<or> specKind = TSK_Undeclared)
                  then []
                  else bases (typeDecls ast recordDef)))"

text \<open>
  \<open>insertReferenceToType(from, to, seen)\<close>: the walk through a type, threading the
  collected edges and the set \<open>seen\<close>. \<open>insertReferenceToTypes_seen\<close> is the loop over the
  base specifiers and over the template arguments.
\<close>

function (domintros)
  insertReferenceToType_seen ::
    "AST \<Rightarrow> decl option \<Rightarrow> ty option \<Rightarrow> SourceInfo \<times> ty set \<Rightarrow> SourceInfo \<times> ty set"
  and insertReferenceToTypes_seen ::
    "AST \<Rightarrow> decl option \<Rightarrow> ty option list \<Rightarrow> SourceInfo \<times> ty set \<Rightarrow> SourceInfo \<times> ty set"
where
  "insertReferenceToType_seen ast from None st = st"
| "insertReferenceToType_seen ast from (Some to) (si, seen) =
     (if to \<in> seen then (si, seen)
      else
        let T = types ast to; st = (si, insert to seen) in
        if getTypeClass T = ElaboratedType
        then insertReferenceToType_seen ast from (getNamedType T) st
        else
          let st = (if getTypeClass T = ParenType
                    then insertReferenceToType_seen ast from (getInnerType T) st else st);
              st = apfst (insertReference ast from (getAsTagDecl T)) st;
              st = (if getTypeClass T = ArrayType
                    then insertReferenceToType_seen ast from (getElementType T) st else st);
              st = (if getTypeClass T = PointerType
                    then insertReferenceToType_seen ast from (getPointeeType T) st else st);
              st = (if getTypeClass T = ReferenceType
                    then insertReferenceToType_seen ast from (getPointeeType T) st else st);
              st = (if getTypeClass T = TypedefType
                    then apfst (insertReference ast from (getDecl T)) st else st);
              st = insertReferenceToTypes_seen ast from (basesToWalk ast T) st
          in if getTypeClass T = TemplateSpecializationType
             then insertReferenceToTypes_seen ast from (typeArguments (getArgs T))
                    (apfst (insertReference ast from (getAsTemplateDecl T)) st)
             else st)"
| "insertReferenceToTypes_seen ast from [] st = st"
| "insertReferenceToTypes_seen ast from (t # ts) st =
     insertReferenceToTypes_seen ast from ts (insertReferenceToType_seen ast from t st)"
  by pat_completeness auto

text \<open>The two-argument overloads: each walk starts with an empty \<open>seen\<close>.\<close>

definition insertReferenceToType :: "AST \<Rightarrow> decl option \<Rightarrow> ty option \<Rightarrow> SourceInfo \<Rightarrow> SourceInfo" where
  "insertReferenceToType ast from to si = fst (insertReferenceToType_seen ast from to (si, {}))"

text \<open>
  \<open>StringRef(data, length)\<close>: the \<open>length\<close> bytes at \<open>data\<close>; \<open>length\<close> is a \<open>size_t\<close>.
  \<open>StringRef_find hay needle\<close> is \<open>hay.find(needle)\<close>, with \<open>None\<close> for \<open>npos\<close>.
\<close>

definition StringRef :: "AST \<Rightarrow> 64 word \<Rightarrow> 64 word \<Rightarrow> string" where
  "StringRef ast data len = map (\<lambda>i. memory ast (data + of_nat i)) [0..<unat len]"

fun StringRef_find :: "string \<Rightarrow> string \<Rightarrow> nat option" where
  "StringRef_find [] needle = (if needle = [] then Some 0 else None)"
| "StringRef_find (c # cs) needle =
     (if prefix needle (c # cs) then Some 0 else map_option Suc (StringRef_find cs needle))"

definition caideKeepComment :: string where
  "caideKeepComment = ''caide keep''"

text \<open>
  \<open>VisitDecl\<close>. \<open>comment->getLocStart()\<close> and \<open>comment->getLocEnd()\<close> are the two ends of
  the comment's source range.
\<close>

definition VisitDecl :: "AST \<Rightarrow> decl \<Rightarrow> SourceInfo \<Rightarrow> SourceInfo" where
  "VisitDecl ast d si =
     (let ctx = getDeclContext (decls ast d);
          si = (case ctx of
                  None \<Rightarrow> si
                | Some c \<Rightarrow>
                    if \<not> isa_FunctionDecl (kindOf ast c)
                    then insertReference ast (Some d) ctx si else si)
      in if \<not> isInMainFile ast (getLocStart (decls ast d)) then si
         else
           (case getRawCommentForDeclNoCache (decls ast d) of
              None \<Rightarrow> si
            | Some comment \<Rightarrow>
                (case getCharacterData ast (getBegin (getSourceRange comment)) of
                   (None, invalid) \<Rightarrow> si
                 | (Some beg, invalid) \<Rightarrow>
                     if invalid then si
                     else
                       (case getCharacterData ast (getEnd (getSourceRange comment)) of
                          (None, invalid) \<Rightarrow> si
                        | (Some fin, invalid) \<Rightarrow>
                            if invalid then si
                            else
                              let haystack = StringRef ast beg (fin - beg + 1) in
                              if StringRef_find haystack caideKeepComment \<noteq> None
                              then si\<lparr>declsToKeep := set_insert (<) d (declsToKeep si)\<rparr>
                              else si))))"

text \<open>\<open>getCurrentFunction\<close> and \<open>getParentDecl\<close>, both from the lexical context.\<close>

definition getCurrentFunction :: "AST \<Rightarrow> decl \<Rightarrow> decl option" where
  "getCurrentFunction ast d =
     (case getLexicalDeclContext (decls ast d) of
        None \<Rightarrow> None
      | Some c \<Rightarrow> if isa_FunctionDecl (kindOf ast c) then Some c else None)"

definition getParentDecl :: "AST \<Rightarrow> decl \<Rightarrow> decl option" where
  "getParentDecl ast d = getLexicalDeclContext (decls ast d)"

definition VisitTemplateTypeParmDecl :: "AST \<Rightarrow> decl \<Rightarrow> SourceInfo \<Rightarrow> SourceInfo" where
  "VisitTemplateTypeParmDecl ast paramDecl si =
     (if hasDefaultArgument (typeDecls ast paramDecl)
      then insertReferenceToType ast (getParentDecl ast paramDecl)
             (getDefaultArgument (typeDecls ast paramDecl)) si
      else si)"

definition VisitValueDecl :: "AST \<Rightarrow> decl \<Rightarrow> SourceInfo \<Rightarrow> SourceInfo" where
  "VisitValueDecl ast valueDecl si =
     insertReferenceToType ast (Some valueDecl) (getType (valueDecls ast valueDecl))
       (insertReference ast (getCurrentFunction ast valueDecl) (Some valueDecl) si)"

definition VisitVarDecl :: "AST \<Rightarrow> decl \<Rightarrow> SourceInfo \<Rightarrow> SourceInfo" where
  "VisitVarDecl ast varDecl si =
     (let start = getExpansionStart ast varDecl in
      if \<not> isLocalVarDeclOrParm (valueDecls ast varDecl) \<and> isInMainFile ast start
      then si\<lparr>staticVariables :=
                map_modify start (\<lambda>vars. vars @ [varDecl]) [] (staticVariables si)\<rparr>
      else si)"

definition VisitFieldDecl :: "AST \<Rightarrow> decl \<Rightarrow> SourceInfo \<Rightarrow> SourceInfo" where
  "VisitFieldDecl ast field si =
     insertReference ast (Some field) (getParent (valueDecls ast field)) si"

definition VisitTypedefNameDecl :: "AST \<Rightarrow> decl \<Rightarrow> SourceInfo \<Rightarrow> SourceInfo" where
  "VisitTypedefNameDecl ast typedefDecl si =
     insertReferenceToType ast (Some typedefDecl)
       (getUnderlyingType (typeDecls ast typedefDecl)) si"

definition VisitTypeAliasDecl :: "AST \<Rightarrow> decl \<Rightarrow> SourceInfo \<Rightarrow> SourceInfo" where
  "VisitTypeAliasDecl ast aliasDecl si =
     insertReference ast (Some aliasDecl)
       (getDescribedAliasTemplate (typeDecls ast aliasDecl)) si"

definition VisitTypeAliasTemplateDecl :: "AST \<Rightarrow> decl \<Rightarrow> SourceInfo \<Rightarrow> SourceInfo" where
  "VisitTypeAliasTemplateDecl ast aliasTemplateDecl si =
     insertReference ast (Some aliasTemplateDecl)
       (getInstantiatedFromMemberTemplate (templateDecls ast aliasTemplateDecl)) si"

definition VisitClassTemplateDecl :: "AST \<Rightarrow> decl \<Rightarrow> SourceInfo \<Rightarrow> SourceInfo" where
  "VisitClassTemplateDecl ast templateDecl si =
     insertReference ast (Some templateDecl)
       (getTemplatedDecl (templateDecls ast templateDecl)) si"

definition VisitClassTemplateSpecializationDecl ::
    "AST \<Rightarrow> decl \<Rightarrow> SourceInfo \<Rightarrow> SourceInfo" where
  "VisitClassTemplateSpecializationDecl ast specDecl si =
     (case getSpecializedTemplateOrPartial (typeDecls ast specDecl) of
        is_ClassTemplateDecl t \<Rightarrow> insertReference ast (Some specDecl) t si
      | is_ClassTemplatePartialSpecializationDecl p \<Rightarrow> insertReference ast (Some specDecl) p si)"

definition VisitFunctionDecl :: "AST \<Rightarrow> decl \<Rightarrow> SourceInfo \<Rightarrow> SourceInfo" where
  "VisitFunctionDecl ast f si =
     (let si = (if isMain (valueDecls ast f)
                then si\<lparr>declsToKeep := set_insert (<) f (declsToKeep si)\<rparr> else si);
          si = (if isInMainFile ast (getLocStart (decls ast f))
                   \<and> isLateTemplateParsed (valueDecls ast f)
                then si\<lparr>delayedParsedFunctions := delayedParsedFunctions si @ [f]\<rparr> else si)
      in if getTemplatedKind (valueDecls ast f) = TK_FunctionTemplate then si
         else
           let si = (case getTemplateSpecializationInfo (valueDecls ast f) of
                       None \<Rightarrow> si
                     | Some template \<Rightarrow>
                         insertReference ast (Some f)
                           (getTemplatedDecl (templateDecls ast template)) si);
               si = insertReferenceToType ast (Some f) (getReturnType (valueDecls ast f)) si
           in insertReference ast (Some f)
                (getInstantiatedFromMemberFunction (valueDecls ast f)) si)"

definition VisitFunctionTemplateDecl :: "AST \<Rightarrow> decl \<Rightarrow> SourceInfo \<Rightarrow> SourceInfo" where
  "VisitFunctionTemplateDecl ast functionTemplate si =
     insertReference ast (Some functionTemplate)
       (getInstantiatedFromMemberTemplate (templateDecls ast functionTemplate)) si"

definition VisitCXXMethodDecl :: "AST \<Rightarrow> decl \<Rightarrow> SourceInfo \<Rightarrow> SourceInfo" where
  "VisitCXXMethodDecl ast method si =
     (let si = insertReference ast (Some method) (getParent (valueDecls ast method)) si
      in if isVirtual (valueDecls ast method)
         then insertReference ast (getParent (valueDecls ast method)) (Some method) si
         else si)"

definition VisitCXXRecordDecl :: "AST \<Rightarrow> decl \<Rightarrow> SourceInfo \<Rightarrow> SourceInfo" where
  "VisitCXXRecordDecl ast recordDecl si =
     insertReference ast (Some recordDecl)
       (getDescribedClassTemplate (typeDecls ast recordDecl)) si"

text \<open>
  The expressions the collector has a visitor for. \<open>CallExpr\<close> carries the class of its
  callee expression (null is \<open>None\<close>) and \<open>getCalleeDecl()\<close>; a \<open>TypeSourceInfo*\<close> is the
  \<open>getType()\<close> it holds, or \<open>None\<close> when null; \<open>DeclRefExpr\<close> carries \<open>getDecl()\<close> and
  \<open>getAsType()\<close> of its qualifier and of each prefix of the qualifier in turn.
\<close>

datatype CalleeClass = UnresolvedMemberExpr | CXXDependentScopeMemberExpr | OtherCallee

datatype Stmt =
    CallExpr "CalleeClass option" "decl option"
  | CXXConstructExpr "decl option"
  | CXXTemporaryObjectExpr "decl option" "ty option option"
  | CXXNewExpr "ty option"
  | DeclRefExpr "decl option" "ty option list"
  | CXXScalarValueInitExpr "ty option option"
  | ExplicitCastExpr "ty option"
  | MemberExpr "decl option"
  | LambdaExpr "decl option"
  | UnaryExprOrTypeTraitExpr bool "ty option"
  | OtherStmt

definition VisitCallExpr ::
    "AST \<Rightarrow> decl option \<Rightarrow> CalleeClass option \<Rightarrow> decl option \<Rightarrow> SourceInfo \<Rightarrow> SourceInfo" where
  "VisitCallExpr ast current callee calleeDecl si =
     (if callee = None \<or> calleeDecl = None \<or> callee = Some UnresolvedMemberExpr
         \<or> callee = Some CXXDependentScopeMemberExpr
      then si
      else insertReference ast current calleeDecl si)"

definition VisitCXXConstructExpr ::
    "AST \<Rightarrow> decl option \<Rightarrow> decl option \<Rightarrow> SourceInfo \<Rightarrow> SourceInfo" where
  "VisitCXXConstructExpr ast current constructor si = insertReference ast current constructor si"

definition VisitCXXTemporaryObjectExpr ::
    "AST \<Rightarrow> decl option \<Rightarrow> ty option option \<Rightarrow> SourceInfo \<Rightarrow> SourceInfo" where
  "VisitCXXTemporaryObjectExpr ast current tsi si =
     (case tsi of None \<Rightarrow> si | Some t \<Rightarrow> insertReferenceToType ast current t si)"

definition VisitCXXNewExpr :: "AST \<Rightarrow> decl option \<Rightarrow> ty option \<Rightarrow> SourceInfo \<Rightarrow> SourceInfo" where
  "VisitCXXNewExpr ast current allocatedType si =
     insertReferenceToType ast current allocatedType si"

definition VisitDeclRefExpr ::
    "AST \<Rightarrow> decl option \<Rightarrow> decl option \<Rightarrow> ty option list \<Rightarrow> SourceInfo \<Rightarrow> SourceInfo" where
  "VisitDeclRefExpr ast parent refDecl qualifiers si =
     foldl (\<lambda>si t. insertReferenceToType ast parent t si)
       (insertReference ast parent refDecl si) qualifiers"

definition VisitCXXScalarValueInitExpr ::
    "AST \<Rightarrow> decl option \<Rightarrow> ty option option \<Rightarrow> SourceInfo \<Rightarrow> SourceInfo" where
  "VisitCXXScalarValueInitExpr ast current tsi si =
     (case tsi of None \<Rightarrow> si | Some t \<Rightarrow> insertReferenceToType ast current t si)"

definition VisitExplicitCastExpr ::
    "AST \<Rightarrow> decl option \<Rightarrow> ty option \<Rightarrow> SourceInfo \<Rightarrow> SourceInfo" where
  "VisitExplicitCastExpr ast current typeAsWritten si =
     insertReferenceToType ast current typeAsWritten si"

definition VisitMemberExpr :: "AST \<Rightarrow> decl option \<Rightarrow> decl option \<Rightarrow> SourceInfo \<Rightarrow> SourceInfo" where
  "VisitMemberExpr ast current memberDecl si = insertReference ast current memberDecl si"

definition VisitLambdaExpr :: "AST \<Rightarrow> decl option \<Rightarrow> decl option \<Rightarrow> SourceInfo \<Rightarrow> SourceInfo" where
  "VisitLambdaExpr ast current callOperator si = insertReference ast current callOperator si"

definition VisitUnaryExprOrTypeTraitExpr ::
    "AST \<Rightarrow> decl option \<Rightarrow> bool \<Rightarrow> ty option \<Rightarrow> SourceInfo \<Rightarrow> SourceInfo" where
  "VisitUnaryExprOrTypeTraitExpr ast current isArgumentType argumentType si =
     (if isArgumentType then insertReferenceToType ast current argumentType si else si)"

text \<open>
  The front end's \<open>RecursiveASTVisitor\<close> calls, for a node, the visitors of its classes
  from the base class to the most derived one (\<open>WalkUpFrom...\<close>): \<open>visitorsOf\<close> lists,
  for each class of declaration, the visitors the collector defines for it, in that
  order. Every visitor of the collector returns \<open>true\<close>, so the traversal is never cut
  short.
\<close>

fun visitorsOf :: "DeclKind \<Rightarrow> (AST \<Rightarrow> decl \<Rightarrow> SourceInfo \<Rightarrow> SourceInfo) list" where
  "visitorsOf TypedefDecl = [VisitDecl, VisitTypedefNameDecl]"
| "visitorsOf TypeAliasDecl = [VisitDecl, VisitTypedefNameDecl, VisitTypeAliasDecl]"
| "visitorsOf TemplateTypeParmDecl = [VisitDecl, VisitTemplateTypeParmDecl]"
| "visitorsOf CXXRecordDecl = [VisitDecl, VisitCXXRecordDecl]"
| "visitorsOf ClassTemplateSpecializationDecl =
     [VisitDecl, VisitCXXRecordDecl, VisitClassTemplateSpecializationDecl]"
| "visitorsOf ClassTemplatePartialSpecializationDecl =
     [VisitDecl, VisitCXXRecordDecl, VisitClassTemplateSpecializationDecl]"
| "visitorsOf TypeAliasTemplateDecl = [VisitDecl, VisitTypeAliasTemplateDecl]"
| "visitorsOf ClassTemplateDecl = [VisitDecl, VisitClassTemplateDecl]"
| "visitorsOf FunctionTemplateDecl = [VisitDecl, VisitFunctionTemplateDecl]"
| "visitorsOf FieldDecl = [VisitDecl, VisitValueDecl, VisitFieldDecl]"
| "visitorsOf VarDecl = [VisitDecl, VisitValueDecl, VisitVarDecl]"
| "visitorsOf ParmVarDecl = [VisitDecl, VisitValueDecl, VisitVarDecl]"
| "visitorsOf EnumConstantDecl = [VisitDecl, VisitValueDecl]"
| "visitorsOf OtherValueDecl = [VisitDecl, VisitValueDecl]"
| "visitorsOf FunctionDecl = [VisitDecl, VisitValueDecl, VisitFunctionDecl]"
| "visitorsOf CXXMethodDecl =
     [VisitDecl, VisitValueDecl, VisitFunctionDecl, VisitCXXMethodDecl]"
| "visitorsOf CXXConstructorDecl =
     [VisitDecl, VisitValueDecl, VisitFunctionDecl, VisitCXXMethodDecl]"
| "visitorsOf CXXDestructorDecl =
     [VisitDecl, VisitValueDecl, VisitFunctionDecl, VisitCXXMethodDecl]"
| "visitorsOf CXXConversionDecl =
     [VisitDecl, VisitValueDecl, VisitFunctionDecl, VisitCXXMethodDecl]"
| "visitorsOf TranslationUnitDecl = [VisitDecl]"
| "visitorsOf NamespaceDecl = [VisitDecl]"
| "visitorsOf EmptyDecl = [VisitDecl]"
| "visitorsOf UsingDirectiveDecl = [VisitDecl]"
| "visitorsOf EnumDecl = [VisitDecl]"
| "visitorsOf OtherDecl = [VisitDecl]"

definition WalkUpFromDecl :: "AST \<Rightarrow> decl \<Rightarrow> SourceInfo \<Rightarrow> SourceInfo" where
  "WalkUpFromDecl ast d si = foldl (\<lambda>si visit. visit ast d si) si (visitorsOf (kindOf ast d))"

fun WalkUpFromStmt :: "AST \<Rightarrow> decl option \<Rightarrow> Stmt \<Rightarrow> SourceInfo \<Rightarrow> SourceInfo" where
  "WalkUpFromStmt ast current (CallExpr callee calleeDecl) si =
     VisitCallExpr ast current callee calleeDecl si"
| "WalkUpFromStmt ast current (CXXConstructExpr constructor) si =
     VisitCXXConstructExpr ast current constructor si"
| "WalkUpFromStmt ast current (CXXTemporaryObjectExpr constructor tsi) si =
     VisitCXXTemporaryObjectExpr ast current tsi
       (VisitCXXConstructExpr ast current constructor si)"
| "WalkUpFromStmt ast current (CXXNewExpr allocatedType) si =
     VisitCXXNewExpr ast current allocatedType si"
| "WalkUpFromStmt ast current (DeclRefExpr refDecl qualifiers) si =
     VisitDeclRefExpr ast current refDecl qualifiers si"
| "WalkUpFromStmt ast current (CXXScalarValueInitExpr tsi) si =
     VisitCXXScalarValueInitExpr ast current tsi si"
| "WalkUpFromStmt ast current (ExplicitCastExpr typeAsWritten) si =
     VisitExplicitCastExpr ast current typeAsWritten si"
| "WalkUpFromStmt ast current (MemberExpr memberDecl) si =
     VisitMemberExpr ast current memberDecl si"
| "WalkUpFromStmt ast current (LambdaExpr callOperator) si =
     VisitLambdaExpr ast current callOperator si"
| "WalkUpFromStmt ast current (UnaryExprOrTypeTraitExpr isArgumentType argumentType) si =
     VisitUnaryExprOrTypeTraitExpr ast current isArgumentType argumentType si"
| "WalkUpFromStmt ast current OtherStmt si = si"

text \<open>
  The tree the collector walks: a declaration node (\<open>TraverseDecl\<close> may be handed a null
  pointer) or a statement node, each with the nodes the front end traverses below it.
\<close>

datatype Node = DeclNode "decl option" "Node list" | StmtNode Stmt "Node list"

text \<open>The collector: the \<open>SourceInfo\<close> it fills and its stack of active declarations.\<close>

record DependenciesCollector =
  srcInfo :: SourceInfo
  declStack :: "decl option list"

definition getCurrentDecl :: "DependenciesCollector \<Rightarrow> decl option" where
  "getCurrentDecl c = (case declStack c of [] \<Rightarrow> None | d # _ \<Rightarrow> d)"

text \<open>
  \<open>DependenciesCollector::TraverseDecl\<close> pushes the declaration, lets the base class
  visit the node and traverse below it, and pops. The base class does nothing for a
  null declaration.
\<close>

fun TraverseNode :: "AST \<Rightarrow> Node \<Rightarrow> DependenciesCollector \<Rightarrow> DependenciesCollector"
  and TraverseNodes :: "AST \<Rightarrow> Node list \<Rightarrow> DependenciesCollector \<Rightarrow> DependenciesCollector"
where
  "TraverseNode ast (DeclNode None children) c =
     (let c = c\<lparr>declStack := None # declStack c\<rparr>
      in c\<lparr>declStack := tl (declStack c)\<rparr>)"
| "TraverseNode ast (DeclNode (Some d) children) c =
     (let c = c\<lparr>declStack := Some d # declStack c\<rparr>;
          c = c\<lparr>srcInfo := WalkUpFromDecl ast d (srcInfo c)\<rparr>;
          c = TraverseNodes ast children c
      in c\<lparr>declStack := tl (declStack c)\<rparr>)"
| "TraverseNode ast (StmtNode s children) c =
     TraverseNodes ast children
       (c\<lparr>srcInfo := WalkUpFromStmt ast (getCurrentDecl c) s (srcInfo c)\<rparr>)"
| "TraverseNodes ast [] c = c"
| "TraverseNodes ast (n # ns) c = TraverseNodes ast ns (TraverseNode ast n c)"

text \<open>\<open>depsVisitor.TraverseDecl(Ctx.getTranslationUnitDecl())\<close> on a fresh \<open>SourceInfo\<close>.\<close>

definition collectDependencies :: "AST \<Rightarrow> Node \<Rightarrow> SourceInfo" where
  "collectDependencies ast root =
     srcInfo (TraverseNode ast root \<lparr>srcInfo = SourceInfo_new, declStack = []\<rparr>)"

text \<open>The declarations the traversal visits: the non-null declaration nodes of the tree.\<close>

fun visitedDecls :: "Node \<Rightarrow> decl list"
  and visitedDecls_list :: "Node list \<Rightarrow> decl list"
where
  "visitedDecls (DeclNode None children) = []"
| "visitedDecls (DeclNode (Some d) children) = d # visitedDecls_list children"
| "visitedDecls (StmtNode s children) = visitedDecls_list children"
| "visitedDecls_list [] = []"
| "visitedDecls_list (n # ns) = visitedDecls n @ visitedDecls_list ns"

text \<open>
  The text of the comment attached to a declaration, as \<open>VisitDecl\<close> reads it: the bytes
  from the character data of the comment's start to that of its end, when the source
  manager supplies both.
\<close>

definition rawCommentText :: "AST \<Rightarrow> decl \<Rightarrow> string option" where
  "rawCommentText ast d =
     (case getRawCommentForDeclNoCache (decls ast d) of
        None \<Rightarrow> None
      | Some comment \<Rightarrow>
          (case getCharacterData ast (getBegin (getSourceRange comment)) of
             (Some beg, False) \<Rightarrow>
               (case getCharacterData ast (getEnd (getSourceRange comment)) of
                  (Some fin, False) \<Rightarrow> Some (StringRef ast beg (fin - beg + 1))
                | _ \<Rightarrow> None)
           | _ \<Rightarrow> None))"

text \<open>The vertices of the \<open>uses\<close> map: its keys and the members of its value sets.\<close>

definition vertices :: "(decl \<times> decl list) list \<Rightarrow> decl set" where
  "vertices u = fst ` set u \<union> (\<Union>(k, vs) \<in> set u. set vs)"

section \<open>Forcing the late-parsed templates\<close>

text \<open>
  The part of \<open>clang::Sema\<close> the engine touches: the flag behind
  \<open>getDiagnostics().setSuppressAllDiagnostics\<close>, and the functions whose bodies have been
  parsed late. \<open>sema.LateTemplateParser\<close> is a callback of the front end: it either
  returns with the new state or lets an exception escape, leaving the state it reached.
\<close>

record Sema =
  suppressAllDiagnostics :: bool
  lateParsed :: "decl list"

type_synonym LateTemplateParser = "decl \<Rightarrow> Sema \<Rightarrow> exception \<times> Sema + Sema"

text \<open>The loop \<open>for (FunctionDecl* f : srcInfo.delayedParsedFunctions)\<close>.\<close>

fun forceParsing :: "LateTemplateParser \<Rightarrow> decl list \<Rightarrow> Sema \<Rightarrow> exception \<times> Sema + Sema" where
  "forceParsing parser [] sema = Inr sema"
| "forceParsing parser (f # fs) sema =
     (case parser f sema of
        Inl thrown \<Rightarrow> Inl thrown
      | Inr sema \<Rightarrow> forceParsing parser fs sema)"

text \<open>
  The forcing step of \<open>HandleTranslationUnit\<close>: suppress, force each delayed function,
  re-enable. An exception leaves the function at the call that raised it.
\<close>

definition forceDelayedParsedFunctions ::
    "LateTemplateParser \<Rightarrow> decl list \<Rightarrow> Sema \<Rightarrow> exception \<times> Sema + Sema" where
  "forceDelayedParsedFunctions parser delayed sema =
     (case forceParsing parser delayed (sema\<lparr>suppressAllDiagnostics := True\<rparr>) of
        Inl thrown \<Rightarrow> Inl thrown
      | Inr sema \<Rightarrow> Inr (sema\<lparr>suppressAllDiagnostics := False\<rparr>))"

section \<open>The reachability solver\<close>

text \<open>\<open>class UsageInfo\<close>.\<close>

record UsageInfo =
  usedDecls :: "decl list"
  locationsOfUsedDecls :: "SourceRange list"

definition UsageInfo_new :: UsageInfo where
  "UsageInfo_new = \<lparr>usedDecls = [], locationsOfUsedDecls = []\<rparr>"

text \<open>\<open>std::set::find(x) != end()\<close>: an element equivalent to \<open>x\<close> under the comparer.\<close>

definition set_contains :: "('a \<Rightarrow> 'a \<Rightarrow> bool) \<Rightarrow> 'a \<Rightarrow> 'a list \<Rightarrow> bool" where
  "set_contains lt x xs = list_ex (\<lambda>y. \<not> lt x y \<and> \<not> lt y x) xs"

definition UsageInfo_getSourceRange :: "AST \<Rightarrow> decl \<Rightarrow> SourceRange" where
  "UsageInfo_getSourceRange ast d = getExpansionRange ast d"

definition isUsed :: "AST \<Rightarrow> UsageInfo \<Rightarrow> decl \<Rightarrow> bool" where
  "isUsed ast ui d =
     (if set_contains (<) d (usedDecls ui) then True
      else set_contains SourceRangeComparer (UsageInfo_getSourceRange ast d)
             (locationsOfUsedDecls ui))"

definition addIfInMainFile :: "AST \<Rightarrow> decl \<Rightarrow> UsageInfo \<Rightarrow> UsageInfo" where
  "addIfInMainFile ast d ui =
     (let range = UsageInfo_getSourceRange ast d in
      if isInMainFile ast (getBegin range)
      then ui\<lparr>usedDecls := set_insert (<) d (usedDecls ui),
              locationsOfUsedDecls :=
                set_insert SourceRangeComparer range (locationsOfUsedDecls ui)\<rparr>
      else ui)"

text \<open>
  The state of the worklist loop of \<open>HandleTranslationUnit\<close>: the locals \<open>used\<close>, \<open>queue\<close>
  and \<open>usageInfo\<close>, and \<open>srcInfo.uses\<close>, in which \<open>srcInfo.uses[decl]\<close> creates missing
  entries.
\<close>

record Solver =
  used :: "decl list"
  queue :: "decl list"
  usageInfo :: UsageInfo
  solver_uses :: "(decl \<times> decl list) list"

text \<open>The queue is seeded from \<open>declsToKeep\<close>.\<close>

definition Solver_init :: "AST \<Rightarrow> SourceInfo \<Rightarrow> Solver" where
  "Solver_init ast si =
     \<lparr>used = [],
      queue = foldl (\<lambda>q d. set_insert (<)
                 (if kindOf ast d = NamespaceDecl then d else getCanonicalDecl (decls ast d)) q)
               [] (declsToKeep si),
      usageInfo = UsageInfo_new,
      solver_uses = uses si\<rparr>"

text \<open>One iteration of \<open>while (!queue.empty())\<close>.\<close>

definition Solver_step :: "AST \<Rightarrow> Solver \<Rightarrow> Solver" where
  "Solver_step ast s =
     (case queue s of
        [] \<Rightarrow> s
      | d # rest \<Rightarrow>
          if set_contains (<) d (used s) then s\<lparr>queue := rest\<rparr>
          else
            let u = map_modify d (\<lambda>vs. vs) [] (solver_uses s);
                q = foldl (\<lambda>q x. set_insert (<) x q) rest (map_lookup u d);
                ui = addIfInMainFile ast d (usageInfo s);
                q = (if isa_CXXRecordDecl (kindOf ast d)
                     then (case getDestructor (typeDecls ast d) of
                             None \<Rightarrow> q
                           | Some destructor \<Rightarrow> set_insert (<) destructor q)
                     else q)
            in \<lparr>used = set_insert (<) d (used s), queue = q, usageInfo = ui,
                solver_uses = u\<rparr>)"

text \<open>The loop; \<open>None\<close> would be a loop that never ends.\<close>

definition Solver_run :: "AST \<Rightarrow> SourceInfo \<Rightarrow> Solver option" where
  "Solver_run ast si =
     while_option (\<lambda>s. queue s \<noteq> []) (Solver_step ast) (Solver_init ast si)"

section \<open>The optimizer visitor\<close>

text \<open>
  The visitor's members \<open>declared\<close> and \<open>usedNamespaces\<close>. It never reads the result of
  \<open>rewriter.removeRange\<close>, so its effect on the shared SmartRewriter is the sequence of
  its \<open>removeRange\<close> calls: \<open>removals\<close>.
\<close>

record OptimizerVisitor =
  declared :: "decl list"
  usedNamespaces :: "decl list"
  removals :: "RewriteItem list"

definition OptimizerVisitor_new :: OptimizerVisitor where
  "OptimizerVisitor_new = \<lparr>declared = [], usedNamespaces = [], removals = []\<rparr>"

text \<open>\<open>removeDecl\<close>: the \<open>removeRange\<close> calls it makes, in order.\<close>

definition removeDecl :: "AST \<Rightarrow> decl option \<Rightarrow> RewriteItem list" where
  "removeDecl ast decl =
     (case decl of
        None \<Rightarrow> []
      | Some d \<Rightarrow>
          let start = getExpansionStart ast d;
              fin = getExpansionEnd ast d;
              semicolonAfterDefinition = findSemiAfterLocation ast fin;
              fin = (if isValid semicolonAfterDefinition then semicolonAfterDefinition else fin);
              opts = \<lparr>RemoveLineIfEmpty = True\<rparr>
          in \<lparr>item_range = SourceRange start fin, item_opts = opts\<rparr>
             # (case getRawCommentForDeclNoCache (decls ast d) of
                  None \<Rightarrow> []
                | Some comment \<Rightarrow> [\<lparr>item_range = getSourceRange comment, item_opts = opts\<rparr>]))"

definition callRemoveDecl :: "AST \<Rightarrow> decl \<Rightarrow> OptimizerVisitor \<Rightarrow> OptimizerVisitor" where
  "callRemoveDecl ast d v = v\<lparr>removals := removals v @ removeDecl ast (Some d)\<rparr>"

definition VisitEmptyDecl :: "AST \<Rightarrow> UsageInfo \<Rightarrow> decl \<Rightarrow> OptimizerVisitor \<Rightarrow> OptimizerVisitor" where
  "VisitEmptyDecl ast usage d v =
     (if isInMainFile ast (getLocStart (decls ast d)) then callRemoveDecl ast d v else v)"

definition VisitNamespaceDecl ::
    "AST \<Rightarrow> UsageInfo \<Rightarrow> decl \<Rightarrow> OptimizerVisitor \<Rightarrow> OptimizerVisitor" where
  "VisitNamespaceDecl ast usage namespaceDecl v =
     (if isInMainFile ast (getLocStart (decls ast namespaceDecl))
         \<and> \<not> isUsed ast usage namespaceDecl
      then callRemoveDecl ast namespaceDecl v else v)"

definition needToRemoveFunction :: "AST \<Rightarrow> UsageInfo \<Rightarrow> OptimizerVisitor \<Rightarrow> decl \<Rightarrow> bool" where
  "needToRemoveFunction ast usage v functionDecl =
     (if isExplicitlyDefaulted (valueDecls ast functionDecl)
         \<or> isDeleted (valueDecls ast functionDecl)
      then False
      else
        let canonicalDecl = getCanonicalDecl (decls ast functionDecl);
            funcIsUnused = (\<not> isUsed ast usage canonicalDecl);
            thisIsRedeclaration =
              (\<not> doesThisDeclarationHaveABody (valueDecls ast functionDecl)
               \<and> set_contains (<) canonicalDecl (declared v))
        in funcIsUnused \<or> thisIsRedeclaration)"

definition Optimizer_VisitFunctionDecl ::
    "AST \<Rightarrow> UsageInfo \<Rightarrow> decl \<Rightarrow> OptimizerVisitor \<Rightarrow> OptimizerVisitor" where
  "Optimizer_VisitFunctionDecl ast usage functionDecl v =
     (if \<not> isInMainFile ast (getLocStart (decls ast functionDecl)) then v
      else
        let v = (if needToRemoveFunction ast usage v functionDecl
                 then callRemoveDecl ast functionDecl v else v)
        in v\<lparr>declared := set_insert (<) (getCanonicalDecl (decls ast functionDecl)) (declared v)\<rparr>)"

text \<open>
  \<open>VisitFunctionTemplateDecl\<close> dereferences \<open>templateDecl->getTemplatedDecl()\<close> unchecked;
  the front end gives every function template its templated function, and the model does
  nothing for a null one.
\<close>

definition Optimizer_VisitFunctionTemplateDecl ::
    "AST \<Rightarrow> UsageInfo \<Rightarrow> decl \<Rightarrow> OptimizerVisitor \<Rightarrow> OptimizerVisitor" where
  "Optimizer_VisitFunctionTemplateDecl ast usage templateDecl v =
     (if \<not> isInMainFile ast (getLocStart (decls ast templateDecl)) then v
      else
        (case getTemplatedDecl (templateDecls ast templateDecl) of
           None \<Rightarrow> v
         | Some functionDecl \<Rightarrow>
             let processAsCXXMethod =
                   isBeforeInTranslationUnit (getExpansionStart ast functionDecl)
                     (getExpansionStart ast templateDecl)
             in if processAsCXXMethod then v
                else if needToRemoveFunction ast usage v functionDecl
                then callRemoveDecl ast templateDecl v else v))"

definition Optimizer_VisitCXXRecordDecl ::
    "AST \<Rightarrow> UsageInfo \<Rightarrow> decl \<Rightarrow> OptimizerVisitor \<Rightarrow> OptimizerVisitor" where
  "Optimizer_VisitCXXRecordDecl ast usage recordDecl v =
     (if \<not> isInMainFile ast (getLocStart (decls ast recordDecl)) then v
      else
        let isTemplated = (getDescribedClassTemplate (typeDecls ast recordDecl) \<noteq> None);
            specKind = getTemplateSpecializationKind (typeDecls ast recordDecl)
        in if isTemplated \<and> (specKind = TSK_ImplicitInstantiation \<or> specKind = TSK_Undeclared)
           then v
           else
             let canonicalDecl = getCanonicalDecl (decls ast recordDecl);
                 classIsUnused = (\<not> isUsed ast usage canonicalDecl);
                 thisIsRedeclaration =
                   (\<not> isCompleteDefinition (typeDecls ast recordDecl)
                    \<and> set_contains (<) canonicalDecl (declared v));
                 v = (if classIsUnused \<or> thisIsRedeclaration
                      then callRemoveDecl ast recordDecl v else v)
             in v\<lparr>declared := set_insert (<) canonicalDecl (declared v)\<rparr>)"

definition Optimizer_VisitClassTemplateDecl ::
    "AST \<Rightarrow> UsageInfo \<Rightarrow> decl \<Rightarrow> OptimizerVisitor \<Rightarrow> OptimizerVisitor" where
  "Optimizer_VisitClassTemplateDecl ast usage templateDecl v =
     (if \<not> isInMainFile ast (getLocStart (decls ast templateDecl)) then v
      else
        let canonicalDecl = getCanonicalDecl (decls ast templateDecl);
            classIsUnused = (\<not> isUsed ast usage canonicalDecl);
            thisIsRedeclaration =
              (\<not> isThisDeclarationADefinition (templateDecls ast templateDecl)
               \<and> set_contains (<) canonicalDecl (declared v));
            v = (if classIsUnused \<or> thisIsRedeclaration
                 then callRemoveDecl ast templateDecl v else v)
        in v\<lparr>declared := set_insert (<) canonicalDecl (declared v)\<rparr>)"

definition VisitTypedefDecl ::
    "AST \<Rightarrow> UsageInfo \<Rightarrow> decl \<Rightarrow> OptimizerVisitor \<Rightarrow> OptimizerVisitor" where
  "VisitTypedefDecl ast usage typedefDecl v =
     (if \<not> isInMainFile ast (getLocStart (decls ast typedefDecl)) then v
      else if \<not> isUsed ast usage (getCanonicalDecl (decls ast typedefDecl))
      then callRemoveDecl ast typedefDecl v else v)"

definition Optimizer_VisitTypeAliasDecl ::
    "AST \<Rightarrow> UsageInfo \<Rightarrow> decl \<Rightarrow> OptimizerVisitor \<Rightarrow> OptimizerVisitor" where
  "Optimizer_VisitTypeAliasDecl ast usage aliasDecl v =
     (if \<not> isInMainFile ast (getLocStart (decls ast aliasDecl)) then v
      else if getDescribedAliasTemplate (typeDecls ast aliasDecl) \<noteq> None then v
      else if \<not> isUsed ast usage (getCanonicalDecl (decls ast aliasDecl))
      then callRemoveDecl ast aliasDecl v else v)"

definition Optimizer_VisitTypeAliasTemplateDecl ::
    "AST \<Rightarrow> UsageInfo \<Rightarrow> decl \<Rightarrow> OptimizerVisitor \<Rightarrow> OptimizerVisitor" where
  "Optimizer_VisitTypeAliasTemplateDecl ast usage aliasDecl v =
     (if \<not> isInMainFile ast (getLocStart (decls ast aliasDecl)) then v
      else if \<not> isUsed ast usage aliasDecl then callRemoveDecl ast aliasDecl v else v)"

text \<open>\<open>usedNamespaces.insert(ns).second\<close> is true exactly when \<open>ns\<close> was not yet a member.\<close>

definition VisitUsingDirectiveDecl ::
    "AST \<Rightarrow> UsageInfo \<Rightarrow> decl \<Rightarrow> OptimizerVisitor \<Rightarrow> OptimizerVisitor" where
  "VisitUsingDirectiveDecl ast usage usingDecl v =
     (if \<not> isInMainFile ast (getLocStart (decls ast usingDecl)) then v
      else
        (case getNominatedNamespace (templateDecls ast usingDecl) of
           None \<Rightarrow> v
         | Some ns \<Rightarrow>
             let inserted = (\<not> set_contains (<) ns (usedNamespaces v));
                 v = v\<lparr>usedNamespaces := set_insert (<) ns (usedNamespaces v)\<rparr>
             in if \<not> inserted then callRemoveDecl ast usingDecl v else v))"

text \<open>
  The visitors the optimizer defines for each class of declaration, base class first.
\<close>

fun Optimizer_visitorsOf ::
    "DeclKind \<Rightarrow> (AST \<Rightarrow> UsageInfo \<Rightarrow> decl \<Rightarrow> OptimizerVisitor \<Rightarrow> OptimizerVisitor) list" where
  "Optimizer_visitorsOf EmptyDecl = [VisitEmptyDecl]"
| "Optimizer_visitorsOf NamespaceDecl = [VisitNamespaceDecl]"
| "Optimizer_visitorsOf FunctionDecl = [Optimizer_VisitFunctionDecl]"
| "Optimizer_visitorsOf CXXMethodDecl = [Optimizer_VisitFunctionDecl]"
| "Optimizer_visitorsOf CXXConstructorDecl = [Optimizer_VisitFunctionDecl]"
| "Optimizer_visitorsOf CXXDestructorDecl = [Optimizer_VisitFunctionDecl]"
| "Optimizer_visitorsOf CXXConversionDecl = [Optimizer_VisitFunctionDecl]"
| "Optimizer_visitorsOf FunctionTemplateDecl = [Optimizer_VisitFunctionTemplateDecl]"
| "Optimizer_visitorsOf CXXRecordDecl = [Optimizer_VisitCXXRecordDecl]"
| "Optimizer_visitorsOf ClassTemplateSpecializationDecl = [Optimizer_VisitCXXRecordDecl]"
| "Optimizer_visitorsOf ClassTemplatePartialSpecializationDecl = [Optimizer_VisitCXXRecordDecl]"
| "Optimizer_visitorsOf ClassTemplateDecl = [Optimizer_VisitClassTemplateDecl]"
| "Optimizer_visitorsOf TypedefDecl = [VisitTypedefDecl]"
| "Optimizer_visitorsOf TypeAliasDecl = [Optimizer_VisitTypeAliasDecl]"
| "Optimizer_visitorsOf TypeAliasTemplateDecl = [Optimizer_VisitTypeAliasTemplateDecl]"
| "Optimizer_visitorsOf UsingDirectiveDecl = [VisitUsingDirectiveDecl]"
| "Optimizer_visitorsOf TranslationUnitDecl = []"
| "Optimizer_visitorsOf TemplateTypeParmDecl = []"
| "Optimizer_visitorsOf EnumDecl = []"
| "Optimizer_visitorsOf FieldDecl = []"
| "Optimizer_visitorsOf VarDecl = []"
| "Optimizer_visitorsOf ParmVarDecl = []"
| "Optimizer_visitorsOf EnumConstantDecl = []"
| "Optimizer_visitorsOf OtherValueDecl = []"
| "Optimizer_visitorsOf OtherDecl = []"

definition Optimizer_WalkUpFromDecl ::
    "AST \<Rightarrow> UsageInfo \<Rightarrow> OptimizerVisitor \<Rightarrow> decl \<Rightarrow> OptimizerVisitor" where
  "Optimizer_WalkUpFromDecl ast usage v d =
     foldl (\<lambda>v visit. visit ast usage d v) v (Optimizer_visitorsOf (kindOf ast d))"

text \<open>
  \<open>visitor.TraverseDecl(Ctx.getTranslationUnitDecl())\<close>: the optimizer has visitors for
  declarations only, so its traversal is the sequence of the declarations the front end
  visits (no implicit code, no template instantiations), in the order of the visits.
\<close>

definition Optimizer_Traverse ::
    "AST \<Rightarrow> UsageInfo \<Rightarrow> decl list \<Rightarrow> OptimizerVisitor \<Rightarrow> OptimizerVisitor" where
  "Optimizer_Traverse ast usage visited v = foldl (Optimizer_WalkUpFromDecl ast usage) v visited"

section \<open>The comma-group variable pruner\<close>

text \<open>
  \<open>removeUnusedVariables\<close> for one entry \<open>kv\<close> of \<open>srcInfo.staticVariables\<close>: the
  \<open>removeRange\<close> calls it makes, in order. The source reads \<open>vars.back()\<close>, which has no
  meaning for an empty vector: that is \<open>None\<close>.
\<close>

definition lastUsedIndex :: "bool list \<Rightarrow> nat" where
  "lastUsedIndex isUsedv =
     foldl (\<lambda>lastUsed i. if isUsedv ! i then i else lastUsed) (length isUsedv)
       [0..<length isUsedv]"

definition removeUnusedVariables_group ::
    "AST \<Rightarrow> UsageInfo \<Rightarrow> SourceLocation \<times> decl list \<Rightarrow> RewriteItem list option" where
  "removeUnusedVariables_group ast usage kv =
     (let vars = snd kv; opts = \<lparr>RemoveLineIfEmpty = True\<rparr> in
      if vars = [] then None
      else
        let n = length vars;
            isUsedv = map (\<lambda>var. isUsed ast usage (getCanonicalDecl (decls ast var))) vars;
            lastUsed = lastUsedIndex isUsedv;
            startOfType = fst kv;
            endOfLastVar = getExpansionEnd ast (last vars)
        in if lastUsed = n
           then
             let semiColon = findSemiAfterLocation ast endOfLastVar
             in Some [\<lparr>item_range = SourceRange startOfType semiColon, item_opts = opts\<rparr>]
           else
             Some
              (concat (map (\<lambda>i.
                   if \<not> isUsedv ! i
                   then
                     let beg = getLocation (decls ast (vars ! i));
                         fin = getExpansionEnd ast (vars ! i);
                         fin = (if i + 1 < n then findTokenAfterLocation ast fin tok_comma
                                else fin)
                     in if isValid beg \<and> isValid fin
                        then [\<lparr>item_range = SourceRange beg fin, item_opts = opts\<rparr>]
                        else []
                   else []) [0..<lastUsed])
               @ (if lastUsed + 1 \<noteq> n
                  then
                    let fin = getExpansionEnd ast (vars ! lastUsed);
                        comma = findTokenAfterLocation ast fin tok_comma
                    in [\<lparr>item_range = SourceRange comma endOfLastVar, item_opts = opts\<rparr>]
                  else [])))"

text \<open>The loop over the entries of the map, in key order; it stops where a call has no
  result.\<close>

fun removeUnusedVariables ::
    "AST \<Rightarrow> UsageInfo \<Rightarrow> (SourceLocation \<times> decl list) list \<Rightarrow> RewriteItem list option" where
  "removeUnusedVariables ast usage [] = Some []"
| "removeUnusedVariables ast usage (kv # rest) =
     (case removeUnusedVariables_group ast usage kv of
        None \<Rightarrow> None
      | Some items \<Rightarrow>
          (case removeUnusedVariables ast usage rest of
             None \<Rightarrow> None
           | Some others \<Rightarrow> Some (items @ others)))"

text \<open>
  The three kinds of removal the specification describes for a group: the whole group,
  from the shared type start through the terminating semicolon; one variable, from its
  name location to its expansion end extended through the following comma; the tail,
  from the comma after variable \<open>lastUsed\<close> to the end of the last variable.
\<close>

definition wholeGroupRemoval :: "AST \<Rightarrow> SourceLocation \<Rightarrow> decl list \<Rightarrow> SourceRange" where
  "wholeGroupRemoval ast startOfType vars =
     SourceRange startOfType (findSemiAfterLocation ast (getExpansionEnd ast (last vars)))"

definition variableRemoval :: "AST \<Rightarrow> decl list \<Rightarrow> nat \<Rightarrow> SourceRange" where
  "variableRemoval ast vars i =
     SourceRange (getLocation (decls ast (vars ! i)))
       (findTokenAfterLocation ast (getExpansionEnd ast (vars ! i)) tok_comma)"

definition tailRemoval :: "AST \<Rightarrow> decl list \<Rightarrow> nat \<Rightarrow> SourceRange" where
  "tailRemoval ast vars lastUsed =
     SourceRange (findTokenAfterLocation ast (getExpansionEnd ast (vars ! lastUsed)) tok_comma)
       (getExpansionEnd ast (last vars))"

text \<open>The usage flags \<open>isUsed[i]\<close> of a group, and a removal request with the option the
  pruner sets.\<close>

definition usageFlags :: "AST \<Rightarrow> UsageInfo \<Rightarrow> decl list \<Rightarrow> bool list" where
  "usageFlags ast usage vars =
     map (\<lambda>var. isUsed ast usage (getCanonicalDecl (decls ast var))) vars"

definition removal :: "SourceRange \<Rightarrow> RewriteItem" where
  "removal r = \<lparr>item_range = r, item_opts = \<lparr>RemoveLineIfEmpty = True\<rparr>\<rparr>"

text \<open>
  The removals of the specification for one group, from the usage flags: with
  \<open>lastUsed\<close> the index of the last used variable, or \<open>n\<close> when none is used, the whole
  group when \<open>lastUsed = n\<close>; otherwise one removal for each unused variable before
  \<open>lastUsed\<close>, and the tail when \<open>lastUsed + 1 < n\<close>.
\<close>

definition specifiedRemovals :: "AST \<Rightarrow> SourceLocation \<Rightarrow> decl list \<Rightarrow> bool list \<Rightarrow> SourceRange list" where
  "specifiedRemovals ast startOfType vars isUsedv =
     (let n = length vars; lastUsed = lastUsedIndex isUsedv in
      if lastUsed = n then [wholeGroupRemoval ast startOfType vars]
      else
        map (variableRemoval ast vars) (filter (\<lambda>i. \<not> isUsedv ! i) [0..<lastUsed])
        @ (if lastUsed + 1 < n then [tailRemoval ast vars lastUsed] else []))"

section \<open>The entry point: \<open>Optimizer::doOptimize\<close> and \<open>OptimizerConsumer::getResult\<close>\<close>

text \<open>
  \<open>getResult\<close>: its three inputs are what \<open>smartRewriter.getRewriteBufferFor\<close> returns for
  the main file (a null pointer is \<open>None\<close>), the buffer pointer returned by
  \<open>sourceManager.getBuffer\<close> and the \<open>invalid\<close> flag that call sets.
\<close>

definition getResult :: "string option \<Rightarrow> string option \<Rightarrow> bool \<Rightarrow> string" where
  "getResult rewriteBuf buf invalid =
     (case rewriteBuf of
        Some text \<Rightarrow> text
      | None \<Rightarrow>
          (case buf of
             Some original \<Rightarrow> if \<not> invalid then original else ''Inliner error''
           | None \<Rightarrow> ''Inliner error''))"

text \<open>
  \<open>doOptimize\<close>: \<open>tool.run(&factory)\<close> is the front end. Its outcome is either an exception
  that escapes the run, or the returned status together with the final content of the
  local \<open>result\<close> string, which the consumer overwrites with \<open>getResult()\<close>.
\<close>

definition doOptimize :: "exception + int \<times> string \<Rightarrow> exception + string" where
  "doOptimize run =
     (case run of
        Inl e \<Rightarrow> Inl e
      | Inr (ret, result) \<Rightarrow>
          if ret \<noteq> 0 then Inl (runtime_error ''Compilation error'') else Inr result)"

section \<open>The consumer: \<open>OptimizerConsumer::HandleTranslationUnit\<close>\<close>

text \<open>
  \<open>clang::Rewriter\<close>, as the engine drives it: the text deletions it has executed, in
  order. Which text it then holds for a file is the front end's to say.
\<close>

type_synonym Rewriter = "RewriteItem list"

text \<open>Modelled from the spec: \<open>SmartRewriter::applyChanges\<close>, idempotent; it iterates over
  the accepted ranges and executes each as a text deletion on the underlying rewriter.\<close>

definition applyChanges :: "SmartRewriter \<Rightarrow> Rewriter \<Rightarrow> SmartRewriter \<times> Rewriter" where
  "applyChanges rw rewriter =
     (if changesApplied rw then (rw, rewriter)
      else (rw\<lparr>changesApplied := True\<rparr>, rewriter @ removed rw))"

text \<open>
  What the front end holds for the translation unit, \<open>compiler\<close> in the source.
  \<^item> \<open>hasSourceManager\<close>, \<open>getSema\<close> and the callback \<open>sema.LateTemplateParser\<close>.
  \<^item> \<open>parsedAST\<close> and \<open>collectorTraversal\<close>: the answers of the AST context and the source
    manager when the unit has been parsed, and the nodes that
    \<open>depsVisitor.TraverseDecl(Ctx.getTranslationUnitDecl())\<close> visits then.
  \<^item> \<open>forcedAST\<close> and \<open>optimizerTraversal\<close>: the same answers once the late-parsed
    functions have been forced, which changes their source ranges, and the declarations
    that \<open>visitor.TraverseDecl(Ctx.getTranslationUnitDecl())\<close> visits then, in order.
  \<^item> \<open>preprocessorRequests\<close> and \<open>finalizeRequests\<close>: RemoveInactivePreprocessorBlocks.h is
    not among the sources. Modelled from the spec: the callbacks submit the ranges of
    the branches the preprocessor skipped to the shared SmartRewriter, the former while
    the unit is parsed, the latter in \<open>ppCallbacks.Finalize()\<close>.
  \<^item> \<open>getRewriteBufferFor\<close>: the text the rewriter holds for the main file after the
    given deletions, a null pointer being \<open>None\<close>; \<open>getBuffer\<close>: the buffer pointer that
    \<open>sourceManager.getBuffer\<close> returns for the main file and the \<open>invalid\<close> flag it sets.
\<close>

record CompilerInstance =
  hasSourceManager :: bool
  getSema :: Sema
  lateTemplateParser :: LateTemplateParser
  parsedAST :: AST
  collectorTraversal :: Node
  forcedAST :: AST
  optimizerTraversal :: "decl list"
  preprocessorRequests :: "RewriteItem list"
  finalizeRequests :: "RewriteItem list"
  getRewriteBufferFor :: "Rewriter \<Rightarrow> string option"
  getBuffer :: "string option \<times> bool"

text \<open>
  The objects the consumer refers to and writes: the SmartRewriter of the factory, and
  the locals \<open>rewriter\<close> and \<open>result\<close> of \<open>doOptimize\<close>.
\<close>

record OptimizerConsumer =
  smartRewriter :: SmartRewriter
  rewriter :: Rewriter
  result :: string

text \<open>
  \<open>HandleTranslationUnit\<close>: collect the dependencies, force the late-parsed functions,
  solve, run the optimizer visitor and the pruner, finalize the preprocessor callbacks,
  apply the changes and store \<open>getResult()\<close>. An exception of the forcing step leaves the
  function; \<open>None\<close> stands for a worklist loop that never ends and for \<open>vars.back()\<close> on an
  empty vector.
\<close>

definition HandleTranslationUnit ::
    "CompilerInstance \<Rightarrow> OptimizerConsumer \<Rightarrow> (exception + OptimizerConsumer) option" where
  "HandleTranslationUnit compiler c =
     (let si = collectDependencies (parsedAST compiler) (collectorTraversal compiler)
      in case forceDelayedParsedFunctions (lateTemplateParser compiler)
                (delayedParsedFunctions si) (getSema compiler) of
           Inl thrown \<Rightarrow> Some (Inl (fst thrown))
         | Inr sema \<Rightarrow>
             let Ctx = forcedAST compiler
             in (case Solver_run Ctx si of
                   None \<Rightarrow> None
                 | Some solved \<Rightarrow>
                     let visitor = Optimizer_Traverse Ctx (usageInfo solved)
                                     (optimizerTraversal compiler) OptimizerVisitor_new;
                         c = c\<lparr>smartRewriter :=
                                 removeRanges (smartRewriter c) (removals visitor)\<rparr>
                     in (case removeUnusedVariables Ctx (usageInfo solved)
                                (staticVariables si) of
                           None \<Rightarrow> None
                         | Some variables \<Rightarrow>
                             let c = c\<lparr>smartRewriter :=
                                       removeRanges (smartRewriter c) variables\<rparr>;
                                 c = c\<lparr>smartRewriter :=
                                       removeRanges (smartRewriter c)
                                         (finalizeRequests compiler)\<rparr>;
                                 applied = applyChanges (smartRewriter c) (rewriter c);
                                 c = c\<lparr>smartRewriter := fst applied,
                                       rewriter := snd applied\<rparr>
                             in Some (Inr (c\<lparr>result :=
                                  getResult (getRewriteBufferFor compiler (rewriter c))
                                    (fst (getBuffer compiler))
                                    (snd (getBuffer compiler))\<rparr>)))))"

section \<open>The front-end run: \<open>tool.run(&factory)\<close>\<close>

text \<open>
  \<open>clang::tooling::ClangTool\<close> for the one source file of \<open>doOptimize\<close>: the compiler
  instance on which the front end runs the action, when it gets that far, and the status
  that \<open>run\<close> returns.
\<close>

record ClangTool =
  compilerInstance :: "CompilerInstance option"
  status :: int

text \<open>
  \<open>OptimizerFrontendAction::CreateASTConsumer\<close>: it throws when the compiler has no
  source manager, and otherwise hands the shared objects to the new consumer.
\<close>

definition CreateASTConsumer ::
    "CompilerInstance \<Rightarrow> OptimizerConsumer \<Rightarrow> exception + OptimizerConsumer" where
  "CreateASTConsumer compiler c =
     (if \<not> hasSourceManager compiler then Inl (thrown_literal ''No source manager'')
      else Inr c)"

text \<open>
  The run, as \<open>doOptimize\<close> sets it up: a new SmartRewriter, a new rewriter and an empty
  \<open>result\<close>. The front end creates the consumer, parses the unit, during which the
  preprocessor callbacks submit their ranges, and calls \<open>HandleTranslationUnit\<close>. The
  outcome is what \<open>doOptimize\<close> goes on with; \<open>None\<close> is a run that does not return.
\<close>

definition run :: "ClangTool \<Rightarrow> (exception + int \<times> string) option" where
  "run tool =
     (let c = \<lparr>smartRewriter = SmartRewriter_new, rewriter = [], result = []\<rparr>
      in case compilerInstance tool of
           None \<Rightarrow> Some (Inr (status tool, result c))
         | Some compiler \<Rightarrow>
             (case CreateASTConsumer compiler c of
                Inl e \<Rightarrow> Some (Inl e)
              | Inr c \<Rightarrow>
                  let c = c\<lparr>smartRewriter :=
                            removeRanges (smartRewriter c) (preprocessorRequests compiler)\<rparr>
                  in (case HandleTranslationUnit compiler c of
                        None \<Rightarrow> None
                      | Some (Inl e) \<Rightarrow> Some (Inl e)
                      | Some (Inr c) \<Rightarrow> Some (Inr (status tool, result c)))))"

section \<open>Notions used in the statements\<close>

text \<open>A using-directive of the main file that nominates the namespace \<open>ns\<close>.\<close>

definition usingDirectiveFor :: "AST \<Rightarrow> decl \<Rightarrow> decl \<Rightarrow> bool" where
  "usingDirectiveFor ast ns w =
     (kindOf ast w = UsingDirectiveDecl \<and> isInMainFile ast (getLocStart (decls ast w))
      \<and> getNominatedNamespace (templateDecls ast w) = Some ns)"

text \<open>A root: \<open>main\<close>, or a declaration of the main file whose comment holds the marker.\<close>

definition isRoot :: "AST \<Rightarrow> decl \<Rightarrow> bool" where
  "isRoot ast d =
     ((isa_FunctionDecl (kindOf ast d) \<and> isMain (valueDecls ast d))
      \<or> (isInMainFile ast (getLocStart (decls ast d))
          \<and> (\<exists>text. rawCommentText ast d = Some text \<and> sublist ''caide keep'' text)))"

text \<open>A vertex as the collector stores it: a namespace, or the canonical declaration of
  some declaration; and a \<open>uses\<close> map all of whose vertices are of that form.\<close>

definition canonicalOrNamespace :: "AST \<Rightarrow> decl \<Rightarrow> bool" where
  "canonicalOrNamespace ast v =
     (kindOf ast v = NamespaceDecl \<or> (\<exists>d. v = getCanonicalDecl (decls ast d)))"

definition usesWellFormed :: "AST \<Rightarrow> SourceInfo \<Rightarrow> bool" where
  "usesWellFormed ast si = (\<forall>v \<in> vertices (uses si). canonicalOrNamespace ast v)"

text \<open>\<open>srcInfo.uses[from].insert(to)\<close>.\<close>

definition addEdge :: "decl \<Rightarrow> decl \<Rightarrow> SourceInfo \<Rightarrow> SourceInfo" where
  "addEdge f t si = si\<lparr>uses := map_modify f (set_insert (<) t) [] (uses si)\<rparr>"

text \<open>
  The two invariants of the worklist loop: the destructor of a used record is used or
  waiting in the queue, and every used declaration of the main file is registered in
  \<open>UsageInfo\<close>.
\<close>

definition destructorsKept :: "AST \<Rightarrow> Solver \<Rightarrow> bool" where
  "destructorsKept ast s =
     (\<forall>r \<in> set (used s). isa_CXXRecordDecl (kindOf ast r) \<longrightarrow>
        (\<forall>x. getDestructor (typeDecls ast r) = Some x \<longrightarrow> x \<in> set (used s) \<union> set (queue s)))"

definition usageRecorded :: "AST \<Rightarrow> Solver \<Rightarrow> bool" where
  "usageRecorded ast s =
     (\<forall>d \<in> set (used s). isInMainFile ast (getBegin (getExpansionRange ast d)) \<longrightarrow>
        d \<in> set (usedDecls (usageInfo s)))"

text \<open>No group of variables is empty.\<close>

definition groupsNonEmpty :: "SourceInfo \<Rightarrow> bool" where
  "groupsNonEmpty si = (\<forall>kv \<in> set (staticVariables si). snd kv \<noteq> [])"

section \<open>A small translation unit\<close>

text \<open>
  The declarations of
  \<^verbatim>\<open>/// caide keep\<close>,
  \<^verbatim>\<open>struct A { ~A(); };\<close>,
  \<^verbatim>\<open>int a, b, c;\<close>,
  \<^verbatim>\<open>namespace N { }\<close>,
  \<^verbatim>\<open>using namespace N;\<close> (twice),
  \<^verbatim>\<open>void unused();\<close> and
  \<^verbatim>\<open>int main() { return b; }\<close>:
  the record \<open>A\<close> is declaration 1 and its destructor 2; the variables are 3, 4 and 5; the
  namespace is 6 and the two using-directives 7 and 8; \<open>unused\<close> is 9, \<open>main\<close> is 10
  and the translation unit 11. Locations are offsets into the file, from 1.
\<close>

definition exampleDecl :: "DeclKind \<Rightarrow> decl \<Rightarrow> decl option \<Rightarrow> SourceLocation \<Rightarrow> Decl" where
  "exampleDecl k canonical ctx loc =
     \<lparr>getKind = k, getCanonicalDecl = canonical, getDeclContext = ctx,
      getLexicalDeclContext = ctx, getLocStart = loc, getLocation = loc,
      getRawCommentForDeclNoCache = None\<rparr>"

definition exampleDecls :: "decl \<Rightarrow> Decl" where
  "exampleDecls d =
     (if d = 1 then (exampleDecl CXXRecordDecl 1 (Some 11) 16)
                      \<lparr>getRawCommentForDeclNoCache := Some \<lparr>getSourceRange = SourceRange 1 14\<rparr>\<rparr>
      else if d = 2 then exampleDecl CXXDestructorDecl 2 (Some 1) 27
      else if d = 3 then (exampleDecl VarDecl 3 (Some 11) 36)\<lparr>getLocation := 40\<rparr>
      else if d = 4 then (exampleDecl VarDecl 4 (Some 11) 36)\<lparr>getLocation := 43\<rparr>
      else if d = 5 then (exampleDecl VarDecl 5 (Some 11) 36)\<lparr>getLocation := 46\<rparr>
      else if d = 6 then exampleDecl NamespaceDecl 6 (Some 11) 49
      else if d = 7 then exampleDecl UsingDirectiveDecl 7 (Some 11) 65
      else if d = 8 then exampleDecl UsingDirectiveDecl 8 (Some 11) 84
      else if d = 9 then exampleDecl FunctionDecl 9 (Some 11) 103
      else if d = 10 then exampleDecl FunctionDecl 10 (Some 11) 118
      else exampleDecl TranslationUnitDecl 11 None 0)"

definition exampleValueDecls :: "decl \<Rightarrow> ValueDecl" where
  "exampleValueDecls d =
     \<lparr>getType = None, isLocalVarDeclOrParm = False,
      getParent = (if d = 2 then Some 1 else None),
      isMain = (d = 10), isLateTemplateParsed = False, getTemplatedKind = TK_NonTemplate,
      getTemplateSpecializationInfo = None, getReturnType = None,
      getInstantiatedFromMemberFunction = None,
      doesThisDeclarationHaveABody = (d = 2 \<or> d = 10),
      isExplicitlyDefaulted = False, isDeleted = False, isVirtual = False\<rparr>"

definition exampleTypeDecls :: "decl \<Rightarrow> TypeDecl" where
  "exampleTypeDecls d =
     \<lparr>getUnderlyingType = None, getDescribedAliasTemplate = None, hasDefaultArgument = False,
      getDefaultArgument = None, getDescribedClassTemplate = None,
      getDestructor = (if d = 1 then Some 2 else None),
      getDefinition = (if d = 1 then Some 1 else None),
      getTemplateSpecializationKind = TSK_Undeclared, bases = [],
      isCompleteDefinition = (d = 1),
      getSpecializedTemplateOrPartial = is_ClassTemplateDecl None\<rparr>"

definition exampleTemplateDecls :: "decl \<Rightarrow> TemplateDecl" where
  "exampleTemplateDecls d =
     \<lparr>getInstantiatedFromMemberTemplate = None, getTemplatedDecl = None,
      isThisDeclarationADefinition = False,
      getNominatedNamespace = (if d = 7 \<or> d = 8 then Some 6 else None)\<rparr>"

definition exampleTypes :: "ty \<Rightarrow> Type" where
  "exampleTypes t =
     \<lparr>getTypeClass = OtherType, getNamedType = None, getInnerType = None,
      getElementType = None, getPointeeType = None, getAsTagDecl = None, getDecl = None,
      getAsCXXRecordDecl = None, getAsTemplateDecl = None, getArgs = []\<rparr>"

definition exampleAST :: AST where
  "exampleAST =
     \<lparr>decls = exampleDecls, valueDecls = exampleValueDecls, typeDecls = exampleTypeDecls,
      templateDecls = exampleTemplateDecls, types = exampleTypes,
      isInMainFile = (\<lambda>l. 0 < l \<and> l < 200),
      getCharacterData = (\<lambda>l. (Some (1000 + of_nat l), False)),
      memory = (\<lambda>p. if 1001 \<le> p \<and> p \<le> 1014 then ''/// caide keep'' ! unat (p - 1001)
                      else CHR ''.''),
      getExpansionStart = (\<lambda>d. getLocStart (exampleDecls d)),
      getExpansionEnd = (\<lambda>d. if d = 1 then 33 else if d = 2 then 31 else if d = 3 then 40
                           else if d = 4 then 43 else if d = 5 then 46 else if d = 6 then 63
                           else if d = 7 then 81 else if d = 8 then 100 else if d = 9 then 115
                           else if d = 10 then 146 else 0),
      findSemiAfterLocation = (\<lambda>l. if l = 33 \<or> l = 46 \<or> l = 81 \<or> l = 100 \<or> l = 115
                                  then l + 1 else 0),
      findTokenAfterLocation = (\<lambda>l k. if k = tok_comma \<and> (l = 40 \<or> l = 43) then l + 1 else 0)\<rparr>"

definition exampleTU :: Node where
  "exampleTU =
     DeclNode (Some 11)
       [DeclNode (Some 1) [DeclNode (Some 2) []],
        DeclNode (Some 3) [], DeclNode (Some 4) [], DeclNode (Some 5) [],
        DeclNode (Some 6) [], DeclNode (Some 7) [], DeclNode (Some 8) [],
        DeclNode (Some 9) [],
        DeclNode (Some 10) [StmtNode OtherStmt [StmtNode (DeclRefExpr (Some 4) []) []]]]"

text \<open>What the solver computes for it, and the front end of the same unit when no comma
  is found after the declarator of \<open>a\<close>.\<close>

definition exampleUsage :: UsageInfo where
  "exampleUsage =
     \<lparr>usedDecls = [1, 2, 4, 10],
      locationsOfUsedDecls =
        [SourceRange 16 33, SourceRange 27 31, SourceRange 36 43, SourceRange 118 146]\<rparr>"

definition exampleSolved :: Solver where
  "exampleSolved =
     \<lparr>used = [1, 2, 4, 10, 11], queue = [], usageInfo = exampleUsage,
      solver_uses =
        [(1, [11]), (2, [1]), (3, [11]), (4, [11]), (5, [11]), (6, [11]),
         (7, [11]), (8, [11]), (9, [11]), (10, [4, 11]), (11, [])]\<rparr>"

definition exampleAST_noComma :: AST where
  "exampleAST_noComma =
     exampleAST\<lparr>findTokenAfterLocation := \<lambda>l k. if k = tok_comma \<and> l = 43 then 44 else 0\<rparr>"

text \<open>A rewriter that has accepted one range, and two late-template parsers: one that
  records the function it parsed, one that raises.\<close>

definition exampleRewriter :: SmartRewriter where
  "exampleRewriter = removeRanges SmartRewriter_new [removal (SourceRange 1 5)]"

definition exampleSema :: Sema where
  "exampleSema = \<lparr>suppressAllDiagnostics = False, lateParsed = []\<rparr>"

definition exampleParser :: LateTemplateParser where
  "exampleParser f sema = Inr (sema\<lparr>lateParsed := lateParsed sema @ [f]\<rparr>)"

definition throwingParser :: LateTemplateParser where
  "throwingParser f sema = Inl (runtime_error ''late parse'', sema)"

text \<open>A parser that raises unless diagnostics are suppressed.\<close>

definition strictParser :: LateTemplateParser where
  "strictParser f sema =
     (if suppressAllDiagnostics sema then exampleParser f sema
      else Inl (runtime_error ''diagnostic'', sema))"

text \<open>
  The same unit with the first using-directive inside the unused function:
  \<^verbatim>\<open>void f(){using namespace N;}\<close> is declaration 9, at 65 to 92, the directive in it
  declaration 7, at 74 to 90, and the directive after it declaration 8, at 94 to 110.
\<close>

definition exampleAST_nested :: AST where
  "exampleAST_nested =
     exampleAST
       \<lparr>decls := (\<lambda>d. if d = 9 then exampleDecl FunctionDecl 9 (Some 11) 65
                       else if d = 7 then exampleDecl UsingDirectiveDecl 7 (Some 9) 74
                       else if d = 8 then exampleDecl UsingDirectiveDecl 8 (Some 11) 94
                       else exampleDecls d),
        getExpansionStart := (\<lambda>d. if d = 9 then 65 else if d = 7 then 74
                                   else if d = 8 then 94 else getLocStart (exampleDecls d)),
        getExpansionEnd := (\<lambda>d. if d = 9 then 92 else if d = 7 then 90
                                 else if d = 8 then 110 else getExpansionEnd exampleAST d),
        findSemiAfterLocation := (\<lambda>l. if l = 33 \<or> l = 46 \<or> l = 90 \<or> l = 110
                                        then l + 1 else 0),
        valueDecls := (\<lambda>d. (exampleValueDecls d)
                         \<lparr>doesThisDeclarationHaveABody := (d = 2 \<or> d = 9 \<or> d = 10)\<rparr>)\<rparr>"

definition exampleTU_nested :: Node where
  "exampleTU_nested =
     DeclNode (Some 11)
       [DeclNode (Some 1) [DeclNode (Some 2) []],
        DeclNode (Some 3) [], DeclNode (Some 4) [], DeclNode (Some 5) [],
        DeclNode (Some 6) [],
        DeclNode (Some 9) [StmtNode OtherStmt [DeclNode (Some 7) []]],
        DeclNode (Some 8) [],
        DeclNode (Some 10) [StmtNode OtherStmt [StmtNode (DeclRefExpr (Some 4) []) []]]]"

text \<open>
  The text of the unit and the text that is left of it, a rewriter that deletes the
  characters of the ranges it is given, and the front end's run on the unit.
\<close>

definition exampleSource :: string where
  "exampleSource =
     ''/// caide keep\<newline>''
     @ ''struct A { ~A(); };\<newline>''
     @ ''int a, b, c;\<newline>''
     @ ''namespace N { }\<newline>''
     @ ''using namespace N;\<newline>''
     @ ''using namespace N;\<newline>''
     @ ''void unused();\<newline>''
     @ ''int main() { return b;      }\<newline>''"

definition exampleRewritten :: string where
  "exampleRewritten =
     ''/// caide keep\<newline>''
     @ ''struct A { ~A(); };\<newline>''
     @ ''int  b;\<newline>''
     @ ''\<newline>''
     @ ''using namespace N;\<newline>''
     @ ''\<newline>''
     @ ''\<newline>''
     @ ''int main() { return b;      }\<newline>''"

definition exampleRewriteBuffer :: "Rewriter \<Rightarrow> string option" where
  "exampleRewriteBuffer deletions =
     (if deletions = [] then None
      else Some (map snd (filter
             (\<lambda>p. list_all (\<lambda>it. \<not> (getBegin (item_range it) \<le> fst p
                                      \<and> fst p \<le> getEnd (item_range it))) deletions)
             (zip [1..<Suc (length exampleSource)] exampleSource))))"

definition exampleCompiler :: CompilerInstance where
  "exampleCompiler =
     \<lparr>hasSourceManager = True, getSema = exampleSema, lateTemplateParser = exampleParser,
      parsedAST = exampleAST, collectorTraversal = exampleTU,
      forcedAST = exampleAST, optimizerTraversal = visitedDecls exampleTU,
      preprocessorRequests = [], finalizeRequests = [],
      getRewriteBufferFor = exampleRewriteBuffer,
      getBuffer = (Some exampleSource, False)\<rparr>"

definition exampleTool :: ClangTool where
  "exampleTool = \<lparr>compilerInstance = Some exampleCompiler, status = 0\<rparr>"

section \<open>Auxiliary facts\<close>

subsection \<open>Containers\<close>

lemma set_set_insert [simp]: "set (set_insert (<) (x::'a::linorder) xs) = insert x (set xs)"
  by (induction xs) auto

lemma set_contains_less [simp]: "set_contains (<) (x::'a::linorder) xs = (x \<in> set xs)"
  by (auto simp: set_contains_def list_ex_iff)

lemma set_foldl_set_insert:
  "set (foldl (\<lambda>q x. set_insert (<) (x::'a::linorder) q) q xs) = set q \<union> set xs"
  by (induction xs arbitrary: q) auto

lemma concat_map_if:
  "concat (map (\<lambda>i. if P i then [f i] else []) xs) = map f (filter P xs)"
  by (induction xs) auto


subsection \<open>Termination of the type walk\<close>

lemma snd_apfst_eq: "snd (apfst f p) = snd p"
  by (cases p) simp

lemma fst_apfst_eq: "fst (apfst f p) = f (fst p)"
  by (cases p) simp

lemma seen_mono_dom:
  "insertReferenceToType_seen_insertReferenceToTypes_seen_dom (Inl (ast, from, to, st)) \<Longrightarrow>
     snd st \<subseteq> snd (insertReferenceToType_seen ast from to st)"
  "insertReferenceToType_seen_insertReferenceToTypes_seen_dom (Inr (ast, from, ts, st)) \<Longrightarrow>
     snd st \<subseteq> snd (insertReferenceToTypes_seen ast from ts st)"
proof (induct ast "from" to st and ast "from" ts st
    rule: insertReferenceToType_seen_insertReferenceToTypes_seen.pinduct)
  case (1 ast "from" st)
  then show ?case by (simp add: insertReferenceToType_seen.psimps)
next
  case (2 ast "from" to si seen)
  note dom = "2.hyps"(1)
  show ?case
  proof (cases "to \<in> seen")
    case True
    then show ?thesis by (simp add: insertReferenceToType_seen.psimps(2) [OF dom])
  next
    case notin: False
    define T where "T = types ast to"
    define s0 where "s0 = (si, insert to seen)"
    show ?thesis
    proof (cases "getTypeClass T = ElaboratedType")
      case True
      have "insertReferenceToType_seen ast from (Some to) (si, seen)
              = insertReferenceToType_seen ast from (getNamedType T) s0"
        using notin True
        by (simp add: insertReferenceToType_seen.psimps(2) [OF dom] T_def s0_def)
      moreover have "snd s0 \<subseteq> snd (insertReferenceToType_seen ast from (getNamedType T) s0)"
        using "2.hyps"(2) [OF notin T_def s0_def True] .
      ultimately show ?thesis by (auto simp: s0_def)
    next
      case notElab: False
      define s1 where "s1 = (if getTypeClass T = ParenType
          then insertReferenceToType_seen ast from (getInnerType T) s0 else s0)"
      define s2 where "s2 = apfst (insertReference ast from (getAsTagDecl T)) s1"
      define s3 where "s3 = (if getTypeClass T = ArrayType
          then insertReferenceToType_seen ast from (getElementType T) s2 else s2)"
      define s4 where "s4 = (if getTypeClass T = PointerType
          then insertReferenceToType_seen ast from (getPointeeType T) s3 else s3)"
      define s5 where "s5 = (if getTypeClass T = ReferenceType
          then insertReferenceToType_seen ast from (getPointeeType T) s4 else s4)"
      define s6 where "s6 = (if getTypeClass T = TypedefType
          then apfst (insertReference ast from (getDecl T)) s5 else s5)"
      define s7 where "s7 = insertReferenceToTypes_seen ast from (basesToWalk ast T) s6"
      define s8 where "s8 = (if getTypeClass T = TemplateSpecializationType
             then insertReferenceToTypes_seen ast from (typeArguments (getArgs T))
                    (apfst (insertReference ast from (getAsTemplateDecl T)) s7)
             else s7)"
      have res: "insertReferenceToType_seen ast from (Some to) (si, seen) = s8"
        unfolding s8_def s7_def s6_def s5_def s4_def s3_def s2_def s1_def
        using notin notElab
        by (simp add: insertReferenceToType_seen.psimps(2) [OF dom] T_def s0_def Let_def
            cong: if_cong option.case_cong)
      have 1: "snd s0 \<subseteq> snd s1"
        using "2.hyps"(3) [OF notin T_def s0_def notElab] by (auto simp: s1_def)
      have 2: "snd s1 = snd s2" by (simp add: s2_def snd_apfst_eq)
      have 3: "snd s2 \<subseteq> snd s3"
        using "2.hyps"(4) [OF notin T_def s0_def notElab s1_def s2_def] by (auto simp: s3_def)
      have 4: "snd s3 \<subseteq> snd s4"
        using "2.hyps"(5) [OF notin T_def s0_def notElab s1_def s2_def s3_def]
        by (auto simp: s4_def)
      have 5: "snd s4 \<subseteq> snd s5"
        using "2.hyps"(6) [OF notin T_def s0_def notElab s1_def s2_def s3_def s4_def]
        by (auto simp: s5_def)
      have 6: "snd s5 = snd s6" by (simp add: s6_def snd_apfst_eq)
      have 7: "snd s6 \<subseteq> snd s7"
        using "2.hyps"(7) [OF notin T_def s0_def notElab s1_def s2_def s3_def s4_def s5_def s6_def]
        by (auto simp: s7_def)
      have 8: "snd s7 \<subseteq> snd s8"
        using "2.hyps"(8) [OF notin T_def s0_def notElab s1_def s2_def s3_def s4_def s5_def s6_def
            s7_def]
        by (auto simp: s8_def snd_apfst_eq)
      have "seen \<subseteq> snd s0" by (auto simp: s0_def)
      with 1 2 3 4 5 6 7 8 res show ?thesis by auto
    qed
  qed
next
  case (3 ast "from" st)
  then show ?case by (simp add: insertReferenceToTypes_seen.psimps)
next
  case (4 ast "from" t ts st)
  then show ?case
    by (auto simp add: insertReferenceToTypes_seen.psimps)
qed

lemma card_unseen_less:
  fixes seen :: "ty set"
  assumes "to \<notin> seen" "insert to seen \<subseteq> S"
  shows "card (UNIV - S) < card (UNIV - seen)"
proof (rule psubset_card_mono)
  show "finite (UNIV - seen)" by simp
  show "UNIV - S \<subset> UNIV - seen" using assms by auto
qed

lemma card_unseen_pred:
  fixes seen :: "ty set"
  assumes "to \<notin> seen"
  shows "card (UNIV - seen) - Suc 0 < card (UNIV - seen)"
proof -
  have "UNIV - seen \<noteq> {}" using assms by auto
  then have "0 < card (UNIV - seen)" by (simp add: card_gt_0_iff)
  then show ?thesis by arith
qed

lemma card_unseen_le:
  fixes seen :: "ty set"
  assumes "seen \<subseteq> S"
  shows "card (UNIV - S) \<le> card (UNIV - seen)"
  by (rule card_mono) (use assms in auto)

lemma seen_mono_dom_pair:
  "insertReferenceToType_seen_insertReferenceToTypes_seen_dom (Inl (ast, from, to, si, seen)) \<Longrightarrow>
     seen \<subseteq> snd (insertReferenceToType_seen ast from to (si, seen))"
  "insertReferenceToType_seen_insertReferenceToTypes_seen_dom (Inr (ast, from, ts, si, seen)) \<Longrightarrow>
     seen \<subseteq> snd (insertReferenceToTypes_seen ast from ts (si, seen))"
  using seen_mono_dom(1) [of ast "from" to "(si, seen)"]
    seen_mono_dom(2) [of ast "from" ts "(si, seen)"] by simp_all

termination insertReferenceToType_seen
  apply (relation "inv_image (less_than <*lex*> less_than)
    (\<lambda>x. case x of
       Inl (ast, from, to, st) \<Rightarrow> (card (UNIV - snd st), 0::nat)
     | Inr (ast, from, ts, st) \<Rightarrow> (card (UNIV - snd st), Suc (length ts)))")
  subgoal by (intro wf_inv_image wf_lex_prod wf_less_than)
  subgoal by (simp add: card_unseen_pred)
  subgoal by (simp add: card_unseen_pred)
  subgoal by (simp add: card_unseen_pred)
  subgoal by (simp add: card_unseen_pred)
  subgoal by (simp add: card_unseen_pred)
  subgoal for ast "from" to si seen
    apply (cases "getTypeClass (types ast to)")
    apply (auto simp: snd_apfst_eq card_unseen_pred intro!: card_unseen_less dest: seen_mono_dom_pair)
    done
  subgoal for ast "from" to si seen
    apply (auto simp: snd_apfst_eq card_unseen_pred intro!: card_unseen_less
        dest: seen_mono_dom_pair)
    done
  subgoal by simp
  subgoal for ast "from" t ts st
    using card_unseen_le [OF seen_mono_dom(1) [of ast "from" t st]] by auto
  done

declare insertReferenceToType_seen.simps(2) [simp del]


subsection \<open>What the type walk preserves\<close>

lemma walk_preserves:
  "(\<And>to si. P si \<Longrightarrow> P (insertReference ast from to si)) \<Longrightarrow> P (fst st) \<Longrightarrow>
     P (fst (insertReferenceToType_seen ast from to st))"
  "(\<And>to si. P si \<Longrightarrow> P (insertReference ast from to si)) \<Longrightarrow> P (fst st) \<Longrightarrow>
     P (fst (insertReferenceToTypes_seen ast from ts st))"
proof (induct ast "from" to st and ast "from" ts st
    rule: insertReferenceToType_seen_insertReferenceToTypes_seen.induct)
  case (1 ast "from" st)
  then show ?case by simp
next
  case (2 ast "from" to si seen)
  note step = "2.prems"(1)
  show ?case
  proof (cases "to \<in> seen")
    case True
    then show ?thesis using "2.prems"(2) by (simp add: insertReferenceToType_seen.simps(2))
  next
    case notin: False
    define T where "T = types ast to"
    define s0 where "s0 = (si, insert to seen)"
    have p0: "P (fst s0)" using "2.prems"(2) by (simp add: s0_def)
    show ?thesis
    proof (cases "getTypeClass T = ElaboratedType")
      case True
      have "insertReferenceToType_seen ast from (Some to) (si, seen)
              = insertReferenceToType_seen ast from (getNamedType T) s0"
        using notin True
        by (simp add: insertReferenceToType_seen.simps(2) T_def s0_def)
      moreover have "P (fst (insertReferenceToType_seen ast from (getNamedType T) s0))"
        using "2.hyps"(1) [OF notin T_def s0_def True step p0] .
      ultimately show ?thesis by simp
    next
      case notElab: False
      define s1 where "s1 = (if getTypeClass T = ParenType
          then insertReferenceToType_seen ast from (getInnerType T) s0 else s0)"
      define s2 where "s2 = apfst (insertReference ast from (getAsTagDecl T)) s1"
      define s3 where "s3 = (if getTypeClass T = ArrayType
          then insertReferenceToType_seen ast from (getElementType T) s2 else s2)"
      define s4 where "s4 = (if getTypeClass T = PointerType
          then insertReferenceToType_seen ast from (getPointeeType T) s3 else s3)"
      define s5 where "s5 = (if getTypeClass T = ReferenceType
          then insertReferenceToType_seen ast from (getPointeeType T) s4 else s4)"
      define s6 where "s6 = (if getTypeClass T = TypedefType
          then apfst (insertReference ast from (getDecl T)) s5 else s5)"
      define s7 where "s7 = insertReferenceToTypes_seen ast from (basesToWalk ast T) s6"
      define s8 where "s8 = (if getTypeClass T = TemplateSpecializationType
             then insertReferenceToTypes_seen ast from (typeArguments (getArgs T))
                    (apfst (insertReference ast from (getAsTemplateDecl T)) s7)
             else s7)"
      have res: "insertReferenceToType_seen ast from (Some to) (si, seen) = s8"
        unfolding s8_def s7_def s6_def s5_def s4_def s3_def s2_def s1_def
        using notin notElab
        by (simp add: insertReferenceToType_seen.simps(2) T_def s0_def Let_def
            cong: if_cong option.case_cong)
      have p1: "P (fst s1)"
        using "2.hyps"(2) [OF notin T_def s0_def notElab _ step p0] p0 by (auto simp: s1_def)
      have p2: "P (fst s2)" using step [OF p1] by (simp add: s2_def fst_apfst_eq)
      have p3: "P (fst s3)"
        using "2.hyps"(3) [OF notin T_def s0_def notElab s1_def s2_def _ step p2] p2
        by (auto simp: s3_def)
      have p4: "P (fst s4)"
        using "2.hyps"(4) [OF notin T_def s0_def notElab s1_def s2_def s3_def _ step p3] p3
        by (auto simp: s4_def)
      have p5: "P (fst s5)"
        using "2.hyps"(5) [OF notin T_def s0_def notElab s1_def s2_def s3_def s4_def _ step p4] p4
        by (auto simp: s5_def)
      have p6: "P (fst s6)" using step [OF p5] p5 by (simp add: s6_def fst_apfst_eq)
      have p7: "P (fst s7)"
        using "2.hyps"(6) [OF notin T_def s0_def notElab s1_def s2_def s3_def s4_def s5_def
            s6_def step p6]
        by (simp add: s7_def)
      have p7': "P (fst (apfst (insertReference ast from (getAsTemplateDecl T)) s7))"
        using step [OF p7] by (simp add: fst_apfst_eq)
      have p8: "P (fst s8)"
        using "2.hyps"(7) [OF notin T_def s0_def notElab s1_def s2_def s3_def s4_def s5_def
            s6_def s7_def _ step p7'] p7
        by (auto simp: s8_def)
      with res show ?thesis by simp
    qed
  qed
next
  case (3 ast "from" st)
  then show ?case by simp
next
  case (4 ast "from" t ts st)
  then show ?case by simp
qed

lemma insertReferenceToType_preserves:
  assumes "\<And>to si. P si \<Longrightarrow> P (insertReference ast from to si)" and "P si"
  shows "P (insertReferenceToType ast from to si)"
  unfolding insertReferenceToType_def
  using walk_preserves(1) [of P ast "from" "(si, {})" to] assms by simp


subsection \<open>The roots the collector records\<close>

lemma StringRef_find_None: "(StringRef_find hay needle = None) = (\<not> sublist needle hay)"
  by (induction hay) (auto simp: sublist_Cons_right)

lemma StringRef_find_Some: "StringRef_find hay needle = Some i \<Longrightarrow> sublist needle hay"
  using StringRef_find_None [of hay needle] by auto

lemma declsToKeep_insertReference [simp]:
  "declsToKeep (insertReference ast from to si) = declsToKeep si"
  by (simp add: insertReference_def Let_def split: option.splits)

lemma declsToKeep_insertReferenceToType [simp]:
  "declsToKeep (insertReferenceToType ast from to si) = declsToKeep si"
  by (rule insertReferenceToType_preserves [where P = "\<lambda>s. declsToKeep s = declsToKeep si"])
    simp_all

lemma declsToKeep_foldl_insertReferenceToType [simp]:
  "declsToKeep (foldl (\<lambda>si t. insertReferenceToType ast from t si) si ts) = declsToKeep si"
  by (induction ts arbitrary: si) simp_all

lemma declsToKeep_VisitDecl:
  "set (declsToKeep (VisitDecl ast d si)) =
     set (declsToKeep si)
     \<union> (if isInMainFile ast (getLocStart (decls ast d))
           \<and> (\<exists>text. rawCommentText ast d = Some text \<and> sublist ''caide keep'' text)
         then {d} else {})"
  by (auto simp: VisitDecl_def rawCommentText_def Let_def StringRef_find_None
      caideKeepComment_def dest: StringRef_find_Some
      split: option.splits prod.splits bool.splits if_splits)

lemma declsToKeep_VisitFunctionDecl:
  "set (declsToKeep (VisitFunctionDecl ast d si)) =
     set (declsToKeep si) \<union> (if isMain (valueDecls ast d) then {d} else {})"
  by (simp add: VisitFunctionDecl_def Let_def split: option.splits)

lemma declsToKeep_others [simp]:
  "declsToKeep (VisitTemplateTypeParmDecl ast d si) = declsToKeep si"
  "declsToKeep (VisitValueDecl ast d si) = declsToKeep si"
  "declsToKeep (VisitVarDecl ast d si) = declsToKeep si"
  "declsToKeep (VisitFieldDecl ast d si) = declsToKeep si"
  "declsToKeep (VisitTypedefNameDecl ast d si) = declsToKeep si"
  "declsToKeep (VisitTypeAliasDecl ast d si) = declsToKeep si"
  "declsToKeep (VisitTypeAliasTemplateDecl ast d si) = declsToKeep si"
  "declsToKeep (VisitClassTemplateDecl ast d si) = declsToKeep si"
  "declsToKeep (VisitClassTemplateSpecializationDecl ast d si) = declsToKeep si"
  "declsToKeep (VisitFunctionTemplateDecl ast d si) = declsToKeep si"
  "declsToKeep (VisitCXXMethodDecl ast d si) = declsToKeep si"
  "declsToKeep (VisitCXXRecordDecl ast d si) = declsToKeep si"
  by (simp_all add: VisitTemplateTypeParmDecl_def VisitValueDecl_def VisitVarDecl_def
      VisitFieldDecl_def VisitTypedefNameDecl_def VisitTypeAliasDecl_def
      VisitTypeAliasTemplateDecl_def VisitClassTemplateDecl_def
      VisitClassTemplateSpecializationDecl_def VisitFunctionTemplateDecl_def
      VisitCXXMethodDecl_def VisitCXXRecordDecl_def Let_def
      split: SpecializedTemplateOrPartial.splits)

lemma declsToKeep_WalkUpFromDecl:
  "set (declsToKeep (WalkUpFromDecl ast d si)) =
     set (declsToKeep si) \<union> (if isRoot ast d then {d} else {})"
  by (cases "kindOf ast d")
    (auto simp: WalkUpFromDecl_def isRoot_def declsToKeep_VisitDecl declsToKeep_VisitFunctionDecl
      isa_FunctionDecl_def isa_CXXMethodDecl_def)

lemma declsToKeep_WalkUpFromStmt [simp]:
  "declsToKeep (WalkUpFromStmt ast current s si) = declsToKeep si"
  by (cases s)
    (simp_all add: VisitCallExpr_def VisitCXXConstructExpr_def VisitCXXTemporaryObjectExpr_def
      VisitCXXNewExpr_def VisitDeclRefExpr_def VisitCXXScalarValueInitExpr_def
      VisitExplicitCastExpr_def VisitMemberExpr_def VisitLambdaExpr_def
      VisitUnaryExprOrTypeTraitExpr_def split: option.splits)

lemma declsToKeep_Traverse:
  "set (declsToKeep (srcInfo (TraverseNode ast n c))) =
     set (declsToKeep (srcInfo c)) \<union> {d \<in> set (visitedDecls n). isRoot ast d}"
  "set (declsToKeep (srcInfo (TraverseNodes ast ns c))) =
     set (declsToKeep (srcInfo c)) \<union> {d \<in> set (visitedDecls_list ns). isRoot ast d}"
proof (induction ast n c and ast ns c rule: TraverseNode_TraverseNodes.induct)
  case (1 ast children c)
  then show ?case by simp
next
  case (2 ast d children c)
  then show ?case by (auto simp: Let_def declsToKeep_WalkUpFromDecl split: if_splits)
next
  case (3 ast s children c)
  then show ?case by simp
next
  case (4 ast c)
  then show ?case by simp
next
  case (5 ast n ns c)
  then show ?case by auto
qed


subsection \<open>The vertices the collector records\<close>

lemma vertices_Nil [simp]: "vertices [] = {}"
  by (simp add: vertices_def)

lemma vertices_Cons [simp]: "vertices ((k, vs) # u) = insert k (set vs \<union> vertices u)"
  by (auto simp: vertices_def)

lemma vertices_map_modify:
  "vertices (map_modify k (set_insert (<) v) [] u) = insert k (insert v (vertices u))"
  by (induction u) (auto split: if_splits)

lemma usesWellFormed_insertReference:
  "usesWellFormed ast si \<Longrightarrow> usesWellFormed ast (insertReference ast from to si)"
  by (auto simp: usesWellFormed_def insertReference_def Let_def vertices_map_modify
      canonicalOrNamespace_def split: option.splits)

lemma usesWellFormed_insertReferenceToType:
  "usesWellFormed ast si \<Longrightarrow> usesWellFormed ast (insertReferenceToType ast from to si)"
  by (rule insertReferenceToType_preserves [where P = "usesWellFormed ast"])
    (simp_all add: usesWellFormed_insertReference)

lemma usesWellFormed_foldl:
  "usesWellFormed ast si \<Longrightarrow>
     usesWellFormed ast (foldl (\<lambda>si t. insertReferenceToType ast from t si) si ts)"
  by (induction ts arbitrary: si) (simp_all add: usesWellFormed_insertReferenceToType)

lemma usesWellFormed_update [simp]:
  "usesWellFormed ast (si\<lparr>declsToKeep := k\<rparr>) = usesWellFormed ast si"
  "usesWellFormed ast (si\<lparr>delayedParsedFunctions := dl\<rparr>) = usesWellFormed ast si"
  "usesWellFormed ast (si\<lparr>staticVariables := sv\<rparr>) = usesWellFormed ast si"
  by (simp_all add: usesWellFormed_def)

lemmas usesWellFormed_intros =
  usesWellFormed_insertReference usesWellFormed_insertReferenceToType usesWellFormed_foldl

lemma usesWellFormed_visitors:
  assumes "usesWellFormed ast si"
  shows "usesWellFormed ast (VisitDecl ast d si)"
    "usesWellFormed ast (VisitTemplateTypeParmDecl ast d si)"
    "usesWellFormed ast (VisitValueDecl ast d si)"
    "usesWellFormed ast (VisitVarDecl ast d si)"
    "usesWellFormed ast (VisitFieldDecl ast d si)"
    "usesWellFormed ast (VisitTypedefNameDecl ast d si)"
    "usesWellFormed ast (VisitTypeAliasDecl ast d si)"
    "usesWellFormed ast (VisitTypeAliasTemplateDecl ast d si)"
    "usesWellFormed ast (VisitClassTemplateDecl ast d si)"
    "usesWellFormed ast (VisitClassTemplateSpecializationDecl ast d si)"
    "usesWellFormed ast (VisitFunctionDecl ast d si)"
    "usesWellFormed ast (VisitFunctionTemplateDecl ast d si)"
    "usesWellFormed ast (VisitCXXMethodDecl ast d si)"
    "usesWellFormed ast (VisitCXXRecordDecl ast d si)"
  using assms
  by (auto simp: VisitDecl_def VisitTemplateTypeParmDecl_def VisitValueDecl_def VisitVarDecl_def
      VisitFieldDecl_def VisitTypedefNameDecl_def VisitTypeAliasDecl_def
      VisitTypeAliasTemplateDecl_def VisitClassTemplateDecl_def
      VisitClassTemplateSpecializationDecl_def VisitFunctionDecl_def
      VisitFunctionTemplateDecl_def VisitCXXMethodDecl_def VisitCXXRecordDecl_def Let_def
      intro!: usesWellFormed_intros
      split: SpecializedTemplateOrPartial.splits option.splits prod.splits)

lemma usesWellFormed_WalkUpFromDecl:
  "usesWellFormed ast si \<Longrightarrow> usesWellFormed ast (WalkUpFromDecl ast d si)"
  by (cases "kindOf ast d") (simp_all add: WalkUpFromDecl_def usesWellFormed_visitors)

lemma usesWellFormed_WalkUpFromStmt:
  "usesWellFormed ast si \<Longrightarrow> usesWellFormed ast (WalkUpFromStmt ast current s si)"
  by (cases s)
    (auto simp: VisitCallExpr_def VisitCXXConstructExpr_def VisitCXXTemporaryObjectExpr_def
      VisitCXXNewExpr_def VisitDeclRefExpr_def VisitCXXScalarValueInitExpr_def
      VisitExplicitCastExpr_def VisitMemberExpr_def VisitLambdaExpr_def
      VisitUnaryExprOrTypeTraitExpr_def intro!: usesWellFormed_intros split: option.splits)

lemma usesWellFormed_Traverse:
  "usesWellFormed ast (srcInfo c) \<Longrightarrow> usesWellFormed ast (srcInfo (TraverseNode ast n c))"
  "usesWellFormed ast (srcInfo c) \<Longrightarrow> usesWellFormed ast (srcInfo (TraverseNodes ast ns c))"
proof (induction ast n c and ast ns c rule: TraverseNode_TraverseNodes.induct)
  case (1 ast children c)
  then show ?case by simp
next
  case (2 ast d children c)
  then show ?case by (simp add: Let_def usesWellFormed_WalkUpFromDecl)
next
  case (3 ast s children c)
  then show ?case by (simp add: usesWellFormed_WalkUpFromStmt)
next
  case (4 ast c)
  then show ?case by simp
next
  case (5 ast n ns c)
  then show ?case by simp
qed


subsection \<open>The worklist loop\<close>

lemma usedDecls_addIfInMainFile:
  "set (usedDecls (addIfInMainFile ast d ui)) =
     set (usedDecls ui)
     \<union> (if isInMainFile ast (getBegin (getExpansionRange ast d)) then {d} else {})"
  by (simp add: addIfInMainFile_def UsageInfo_getSourceRange_def Let_def)

lemma Solver_step_Nil: "queue s = [] \<Longrightarrow> Solver_step ast s = s"
  by (simp add: Solver_step_def)

lemma Solver_step_seen:
  "queue s = d # rest \<Longrightarrow> d \<in> set (used s) \<Longrightarrow> Solver_step ast s = s\<lparr>queue := rest\<rparr>"
  by (simp add: Solver_step_def)

lemma Solver_step_new:
  assumes "queue s = d # rest" "d \<notin> set (used s)"
  shows "set (used (Solver_step ast s)) = insert d (set (used s))"
    and "set rest \<subseteq> set (queue (Solver_step ast s))"
    and "isa_CXXRecordDecl (kindOf ast d) \<Longrightarrow> getDestructor (typeDecls ast d) = Some x \<Longrightarrow>
           x \<in> set (queue (Solver_step ast s))"
    and "usageInfo (Solver_step ast s) = addIfInMainFile ast d (usageInfo s)"
  using assms
  by (auto simp: Solver_step_def Let_def set_foldl_set_insert split: option.splits)

lemma destructorsKept_step:
  assumes "destructorsKept ast s" "queue s \<noteq> []"
  shows "destructorsKept ast (Solver_step ast s)"
proof -
  from assms(2) obtain d rest where q: "queue s = d # rest" by (cases "queue s") auto
  show ?thesis
  proof (cases "d \<in> set (used s)")
    case True
    then show ?thesis
      using assms(1) q unfolding destructorsKept_def Solver_step_seen [OF q True]
      by auto
  next
    case False
    note new = Solver_step_new [OF q False, of ast]
    show ?thesis
      unfolding destructorsKept_def
    proof (intro ballI impI allI)
      fix r x
      assume r: "r \<in> set (used (Solver_step ast s))"
        and rec: "isa_CXXRecordDecl (kindOf ast r)"
        and dt: "getDestructor (typeDecls ast r) = Some x"
      show "x \<in> set (used (Solver_step ast s)) \<union> set (queue (Solver_step ast s))"
      proof (cases "r = d")
        case True
        then show ?thesis using new(3) rec dt by auto
      next
        case False
        with r new(1) have "r \<in> set (used s)" by auto
        with assms(1) rec dt have "x \<in> set (used s) \<union> set (queue s)"
          unfolding destructorsKept_def by blast
        then show ?thesis using q new(1) new(2) by auto
      qed
    qed
  qed
qed

lemma usageRecorded_step:
  assumes "usageRecorded ast s" "queue s \<noteq> []"
  shows "usageRecorded ast (Solver_step ast s)"
proof -
  from assms(2) obtain d rest where q: "queue s = d # rest" by (cases "queue s") auto
  show ?thesis
  proof (cases "d \<in> set (used s)")
    case True
    then show ?thesis
      using assms(1) q unfolding usageRecorded_def Solver_step_seen [OF q True]
      by auto
  next
    case False
    note new = Solver_step_new [OF q False, of ast]
    show ?thesis
      using assms(1) unfolding usageRecorded_def new(1) new(4)
      by (auto simp: usedDecls_addIfInMainFile)
  qed
qed

lemma Solver_step_decreases:
  assumes "queue s \<noteq> []"
  shows "(Solver_step ast s, s) \<in> inv_image (less_than <*lex*> less_than)
           (\<lambda>s. (card (UNIV - set (used s)), length (queue s)))"
proof -
  from assms obtain d rest where q: "queue s = d # rest" by (cases "queue s") auto
  show ?thesis
  proof (cases "d \<in> set (used s)")
    case True
    then show ?thesis by (simp add: Solver_step_seen [OF q True] q)
  next
    case False
    have "card (UNIV - insert d (set (used s))) < card (UNIV - set (used s))"
      by (rule psubset_card_mono) (use False in auto)
    then show ?thesis
      by (simp add: Solver_step_new(1) [OF q False])
  qed
qed

lemma Solver_run_terminates: "\<exists>s. Solver_run ast si = Some s"
  unfolding Solver_run_def
proof (rule wf_while_option_Some [where P = "\<lambda>_. True"])
  show "wf {(t, s). (True \<and> queue s \<noteq> []) \<and> t = Solver_step ast s}"
  proof (rule wf_subset)
    show "wf (inv_image (less_than <*lex*> less_than)
           (\<lambda>s. (card (UNIV - set (used s)), length (queue s))))"
      by (intro wf_inv_image wf_lex_prod wf_less_than)
    show "{(t, s). (True \<and> queue s \<noteq> []) \<and> t = Solver_step ast s}
        \<subseteq> inv_image (less_than <*lex*> less_than)
           (\<lambda>s. (card (UNIV - set (used s)), length (queue s)))"
      using Solver_step_decreases by auto
  qed
qed simp_all


subsection \<open>The optimizer visitor\<close>

lemma usedNamespaces_callRemoveDecl [simp]:
  "usedNamespaces (callRemoveDecl ast d v) = usedNamespaces v"
  by (simp add: callRemoveDecl_def)

lemma usedNamespaces_WalkUp:
  "set (usedNamespaces (Optimizer_WalkUpFromDecl ast usage v d)) =
     set (usedNamespaces v) \<union> {ns. usingDirectiveFor ast ns d}"
proof (cases "kindOf ast d")
  case UsingDirectiveDecl
  then show ?thesis
    by (auto simp: Optimizer_WalkUpFromDecl_def VisitUsingDirectiveDecl_def usingDirectiveFor_def
        Let_def split: option.splits)
qed (simp_all add: Optimizer_WalkUpFromDecl_def usingDirectiveFor_def VisitEmptyDecl_def
     VisitNamespaceDecl_def Optimizer_VisitFunctionDecl_def
     Optimizer_VisitFunctionTemplateDecl_def Optimizer_VisitCXXRecordDecl_def
     Optimizer_VisitClassTemplateDecl_def VisitTypedefDecl_def Optimizer_VisitTypeAliasDecl_def
     Optimizer_VisitTypeAliasTemplateDecl_def Let_def split: option.splits)

lemma usedNamespaces_Traverse:
  "set (usedNamespaces (Optimizer_Traverse ast usage visited v)) =
     set (usedNamespaces v) \<union> {ns. \<exists>w \<in> set visited. usingDirectiveFor ast ns w}"
proof (induction visited arbitrary: v)
  case Nil
  then show ?case by (simp add: Optimizer_Traverse_def)
next
  case (Cons d visited)
  have "Optimizer_Traverse ast usage (d # visited) v =
      Optimizer_Traverse ast usage visited (Optimizer_WalkUpFromDecl ast usage v d)"
    by (simp add: Optimizer_Traverse_def)
  then show ?case
    using Cons.IH [of "Optimizer_WalkUpFromDecl ast usage v d"]
    by (auto simp: usedNamespaces_WalkUp)
qed


subsection \<open>The pruner\<close>

lemma lastUsedIndex_upto:
  "foldl (\<lambda>lastUsed i. if fl ! i then i else lastUsed) n [0..<k] =
     (if \<exists>i<k. fl ! i then Max {i. i < k \<and> fl ! i} else n)"
proof (induction k)
  case 0
  then show ?case by simp
next
  case (Suc k)
  show ?case
  proof (cases "fl ! k")
    case True
    have "Max {i. i < Suc k \<and> fl ! i} = k"
      by (rule Max_eqI) (use True in auto)
    with True show ?thesis by auto
  next
    case False
    have "{i. i < Suc k \<and> fl ! i} = {i. i < k \<and> fl ! i}"
      using False less_Suc_eq by auto
    moreover have "(\<exists>i<Suc k. fl ! i) = (\<exists>i<k. fl ! i)"
      using False less_Suc_eq by auto
    ultimately show ?thesis using False Suc by auto
  qed
qed

lemma lastUsedIndex_eq:
  "lastUsedIndex fl =
     (if \<exists>i<length fl. fl ! i then Max {i. i < length fl \<and> fl ! i} else length fl)"
  by (simp add: lastUsedIndex_def lastUsedIndex_upto)

lemma lastUsedIndex_le: "lastUsedIndex fl \<le> length fl"
proof (cases "\<exists>i<length fl. fl ! i")
  case True
  then have "Max {i. i < length fl \<and> fl ! i} \<in> {i. i < length fl \<and> fl ! i}"
    by (intro Max_in) auto
  with True show ?thesis by (simp add: lastUsedIndex_eq)
next
  case False
  then show ?thesis by (auto simp: lastUsedIndex_eq)
qed

lemma removeUnusedVariables_group_eq:
  assumes "vars \<noteq> []"
  shows "removeUnusedVariables_group ast usage (startOfType, vars) =
     Some (map removal
       (let isUsedv = usageFlags ast usage vars; n = length vars;
            lastUsed = lastUsedIndex isUsedv
        in if lastUsed = n then [wholeGroupRemoval ast startOfType vars]
           else
             map (variableRemoval ast vars)
               (filter (\<lambda>i. \<not> isUsedv ! i \<and> isValid (getBegin (variableRemoval ast vars i))
                              \<and> isValid (getEnd (variableRemoval ast vars i))) [0..<lastUsed])
             @ (if lastUsed + 1 < n then [tailRemoval ast vars lastUsed] else [])))"
proof -
  define fl where "fl = usageFlags ast usage vars"
  define l where "l = lastUsedIndex fl"
  have len: "length fl = length vars" by (simp add: fl_def usageFlags_def)
  have le: "l \<le> length vars" using lastUsedIndex_le [of fl] by (simp add: l_def len)
  show ?thesis
  proof (cases "l = length vars")
    case True
    then show ?thesis
      using assms
      by (simp add: removeUnusedVariables_group_def Let_def fl_def [symmetric]
          usageFlags_def [symmetric] l_def [symmetric] wholeGroupRemoval_def removal_def)
  next
    case False
    with le have lt: "l < length vars" by simp
    have mid: "concat (map (\<lambda>i.
                   if \<not> fl ! i
                   then
                     let beg = getLocation (decls ast (vars ! i));
                         fin = getExpansionEnd ast (vars ! i);
                         fin = (if i + 1 < length vars
                                then findTokenAfterLocation ast fin tok_comma else fin)
                     in if isValid beg \<and> isValid fin
                        then [\<lparr>item_range = SourceRange beg fin,
                               item_opts = \<lparr>RemoveLineIfEmpty = True\<rparr>\<rparr>]
                        else []
                   else []) [0..<l])
       = map removal (map (variableRemoval ast vars)
               (filter (\<lambda>i. \<not> fl ! i \<and> isValid (getBegin (variableRemoval ast vars i))
                              \<and> isValid (getEnd (variableRemoval ast vars i))) [0..<l]))"
    proof -
      have "concat (map (\<lambda>i.
                   if \<not> fl ! i
                   then
                     let beg = getLocation (decls ast (vars ! i));
                         fin = getExpansionEnd ast (vars ! i);
                         fin = (if i + 1 < length vars
                                then findTokenAfterLocation ast fin tok_comma else fin)
                     in if isValid beg \<and> isValid fin
                        then [\<lparr>item_range = SourceRange beg fin,
                               item_opts = \<lparr>RemoveLineIfEmpty = True\<rparr>\<rparr>]
                        else []
                   else []) [0..<l])
        = concat (map (\<lambda>i.
             if \<not> fl ! i \<and> isValid (getBegin (variableRemoval ast vars i))
                              \<and> isValid (getEnd (variableRemoval ast vars i))
             then [removal (variableRemoval ast vars i)] else []) [0..<l])"
        using lt
        by (intro arg_cong [where f = concat] map_cong refl)
          (auto simp: Let_def variableRemoval_def removal_def SourceRange_def)
      then show ?thesis by (simp add: concat_map_if)
    qed
    show ?thesis
      using assms False lt
      by (simp add: removeUnusedVariables_group_def Let_def fl_def [symmetric]
          usageFlags_def [symmetric] l_def [symmetric] mid tailRemoval_def removal_def)
  qed
qed


subsection \<open>The groups the collector records\<close>

lemma staticVariables_insertReference [simp]:
  "staticVariables (insertReference ast from to si) = staticVariables si"
  by (simp add: insertReference_def Let_def split: option.splits)

lemma staticVariables_insertReferenceToType [simp]:
  "staticVariables (insertReferenceToType ast from to si) = staticVariables si"
  by (rule insertReferenceToType_preserves
      [where P = "\<lambda>s. staticVariables s = staticVariables si"]) simp_all

lemma staticVariables_foldl_insertReferenceToType [simp]:
  "staticVariables (foldl (\<lambda>si t. insertReferenceToType ast from t si) si ts) = staticVariables si"
  by (induction ts arbitrary: si) simp_all

lemma map_modify_append_nonempty:
  "\<forall>kv \<in> set m. snd kv \<noteq> [] \<Longrightarrow>
     \<forall>kv \<in> set (map_modify k (\<lambda>vars. vars @ [v]) [] m). snd kv \<noteq> []"
  by (induction m) (force split: if_splits)+

lemma groupsNonEmpty_visitors:
  assumes "groupsNonEmpty si"
  shows "groupsNonEmpty (VisitDecl ast d si)"
    "groupsNonEmpty (VisitTemplateTypeParmDecl ast d si)"
    "groupsNonEmpty (VisitValueDecl ast d si)"
    "groupsNonEmpty (VisitVarDecl ast d si)"
    "groupsNonEmpty (VisitFieldDecl ast d si)"
    "groupsNonEmpty (VisitTypedefNameDecl ast d si)"
    "groupsNonEmpty (VisitTypeAliasDecl ast d si)"
    "groupsNonEmpty (VisitTypeAliasTemplateDecl ast d si)"
    "groupsNonEmpty (VisitClassTemplateDecl ast d si)"
    "groupsNonEmpty (VisitClassTemplateSpecializationDecl ast d si)"
    "groupsNonEmpty (VisitFunctionDecl ast d si)"
    "groupsNonEmpty (VisitFunctionTemplateDecl ast d si)"
    "groupsNonEmpty (VisitCXXMethodDecl ast d si)"
    "groupsNonEmpty (VisitCXXRecordDecl ast d si)"
  using assms map_modify_append_nonempty [of "staticVariables si" "getExpansionStart ast d" d]
  by (auto simp: groupsNonEmpty_def VisitDecl_def VisitTemplateTypeParmDecl_def VisitValueDecl_def
      VisitVarDecl_def VisitFieldDecl_def VisitTypedefNameDecl_def VisitTypeAliasDecl_def
      VisitTypeAliasTemplateDecl_def VisitClassTemplateDecl_def
      VisitClassTemplateSpecializationDecl_def VisitFunctionDecl_def
      VisitFunctionTemplateDecl_def VisitCXXMethodDecl_def VisitCXXRecordDecl_def Let_def
      split: SpecializedTemplateOrPartial.splits option.splits prod.splits)

lemma groupsNonEmpty_WalkUpFromDecl:
  "groupsNonEmpty si \<Longrightarrow> groupsNonEmpty (WalkUpFromDecl ast d si)"
  by (cases "kindOf ast d") (simp_all add: WalkUpFromDecl_def groupsNonEmpty_visitors)

lemma staticVariables_WalkUpFromStmt [simp]:
  "staticVariables (WalkUpFromStmt ast current s si) = staticVariables si"
  by (cases s)
    (simp_all add: VisitCallExpr_def VisitCXXConstructExpr_def VisitCXXTemporaryObjectExpr_def
      VisitCXXNewExpr_def VisitDeclRefExpr_def VisitCXXScalarValueInitExpr_def
      VisitExplicitCastExpr_def VisitMemberExpr_def VisitLambdaExpr_def
      VisitUnaryExprOrTypeTraitExpr_def split: option.splits)

lemma groupsNonEmpty_Traverse:
  "groupsNonEmpty (srcInfo c) \<Longrightarrow> groupsNonEmpty (srcInfo (TraverseNode ast n c))"
  "groupsNonEmpty (srcInfo c) \<Longrightarrow> groupsNonEmpty (srcInfo (TraverseNodes ast ns c))"
proof (induction ast n c and ast ns c rule: TraverseNode_TraverseNodes.induct)
  case (1 ast children c)
  then show ?case by simp
next
  case (2 ast d children c)
  then show ?case by (simp add: Let_def groupsNonEmpty_WalkUpFromDecl)
next
  case (3 ast s children c)
  then show ?case by (simp add: groupsNonEmpty_def)
next
  case (4 ast c)
  then show ?case by simp
next
  case (5 ast n ns c)
  then show ?case by simp
qed

lemma removeUnusedVariables_Some:
  "\<forall>kv \<in> set groups. snd kv \<noteq> [] \<Longrightarrow> \<exists>items. removeUnusedVariables ast usage groups = Some items"
proof (induction groups)
  case Nil
  then show ?case by simp
next
  case (Cons kv groups)
  then obtain others where "removeUnusedVariables ast usage groups = Some others" by auto
  moreover have "\<exists>items. removeUnusedVariables_group ast usage kv = Some items"
    using Cons.prems by (simp add: removeUnusedVariables_group_def Let_def)
  ultimately show ?case by auto
qed

lemma removeUnusedVariables_collected:
  "\<exists>items. removeUnusedVariables ast' usage (staticVariables (collectDependencies ast root))
     = Some items"
proof -
  have "groupsNonEmpty (collectDependencies ast root)"
    unfolding collectDependencies_def
    by (rule groupsNonEmpty_Traverse(1)) (simp add: groupsNonEmpty_def SourceInfo_new_def)
  then show ?thesis
    by (intro removeUnusedVariables_Some) (simp add: groupsNonEmpty_def)
qed


subsection \<open>SmartRewriter\<close>

lemma overlaps_sym: "overlaps a b = overlaps b a"
  by (auto simp: overlaps_def)

lemma set_record_item: "set (record_item x xs) = insert x (set xs)"
  by (induction xs) auto

lemma nonOverlapping_removeRange:
  assumes "nonOverlapping (removed rw)"
  shows "nonOverlapping (removed (snd (removeRange rw r opts)))"
proof (cases "canRemoveRange rw r")
  case False
  then show ?thesis using assms by (simp add: removeRange_def)
next
  case True
  have new: "\<forall>y \<in> set (removed rw). \<not> overlaps (item_range y) r"
    using True by (simp add: canRemoveRange_def list_all_iff)
  have old: "\<forall>x \<in> set (removed rw). \<forall>y \<in> set (removed rw).
      x = y \<or> \<not> overlaps (item_range x) (item_range y)"
    using assms by (simp add: nonOverlapping_def list_all_iff)
  show ?thesis
    using True new old
    by (auto simp: removeRange_def nonOverlapping_def list_all_iff set_record_item overlaps_sym)
qed

lemma nonOverlapping_removeRanges:
  "nonOverlapping (removed rw) \<Longrightarrow> nonOverlapping (removed (removeRanges rw items))"
proof (induction items arbitrary: rw)
  case Nil
  then show ?case by (simp add: removeRanges_def)
next
  case (Cons it items)
  have "nonOverlapping (removed (snd (removeRange rw (item_range it) (item_opts it))))"
    using Cons.prems by (rule nonOverlapping_removeRange)
  from Cons.IH [OF this] show ?case by (simp add: removeRanges_def)
qed


subsection \<open>Forcing\<close>

lemma forceParsing_no_throw:
  "(\<And>f s. \<exists>s'. parser f s = Inr s') \<Longrightarrow> \<exists>s'. forceParsing parser fs s = Inr s'"
proof (induction fs arbitrary: s)
  case Nil
  then show ?case by simp
next
  case (Cons f fs)
  from Cons.prems obtain s1 where "parser f s = Inr s1" by blast
  with Cons show ?case by simp
qed

lemma forceParsing_agree:
  assumes keep: "\<And>f s s'. suppressAllDiagnostics s \<Longrightarrow> parser f s = Inr s'
                   \<Longrightarrow> suppressAllDiagnostics s'"
    and agree: "\<And>f s. suppressAllDiagnostics s \<Longrightarrow> parser' f s = parser f s"
  shows "suppressAllDiagnostics s \<Longrightarrow> forceParsing parser' fs s = forceParsing parser fs s"
proof (induction fs arbitrary: s)
  case Nil
  then show ?case by simp
next
  case (Cons f fs)
  show ?case
  proof (cases "parser f s")
    case (Inl thrown)
    then show ?thesis using agree [OF Cons.prems] by simp
  next
    case (Inr s1)
    then have "suppressAllDiagnostics s1" using keep [OF Cons.prems] by simp
    then show ?thesis using Inr agree [OF Cons.prems, of f] Cons.IH by simp
  qed
qed


subsection \<open>The consumer\<close>

lemma changesApplied_removeRanges [simp]:
  "changesApplied (removeRanges rw items) = changesApplied rw"
  unfolding removeRanges_def
  by (induction items arbitrary: rw) (simp_all add: removeRange_def)

lemma getResult_rewritten [simp]: "getResult (Some text) buf invalid = text"
  by (simp add: getResult_def)

lemma getResult_original [simp]: "getResult None (Some original) False = original"
  by (simp add: getResult_def)

lemma HandleTranslationUnit_returns:
  assumes "\<forall>f s. \<exists>s'. lateTemplateParser compiler f s = Inr s'"
  shows "\<exists>c'. HandleTranslationUnit compiler c = Some (Inr c')
          \<and> result c' = getResult (getRewriteBufferFor compiler (rewriter c'))
                          (fst (getBuffer compiler)) (snd (getBuffer compiler))
          \<and> (\<not> changesApplied (smartRewriter c) \<longrightarrow>
                rewriter c' = rewriter c @ removed (smartRewriter c'))"
proof -
  define si where "si = collectDependencies (parsedAST compiler) (collectorTraversal compiler)"
  obtain s1 where force:
    "forceParsing (lateTemplateParser compiler) (delayedParsedFunctions si)
       ((getSema compiler)\<lparr>suppressAllDiagnostics := True\<rparr>) = Inr s1"
    using forceParsing_no_throw [of "lateTemplateParser compiler"] assms by blast
  obtain solved where solve: "Solver_run (forcedAST compiler) si = Some solved"
    using Solver_run_terminates by blast
  obtain variables where prune:
    "removeUnusedVariables (forcedAST compiler) (usageInfo solved) (staticVariables si)
       = Some variables"
    unfolding si_def using removeUnusedVariables_collected by blast
  show ?thesis
    by (simp add: HandleTranslationUnit_def Let_def si_def [symmetric]
        forceDelayedParsedFunctions_def force solve prune applyChanges_def)
qed

lemma HandleTranslationUnit_result:
  assumes "HandleTranslationUnit compiler c = Some (Inr c')"
  shows "result c' = getResult (getRewriteBufferFor compiler (rewriter c'))
                          (fst (getBuffer compiler)) (snd (getBuffer compiler))"
    and "\<not> changesApplied (smartRewriter c) \<Longrightarrow>
           rewriter c' = rewriter c @ removed (smartRewriter c')"
  using assms
  by (auto simp: HandleTranslationUnit_def Let_def applyChanges_def
      split: sum.splits option.splits)

lemma run_returned:
  assumes "compilerInstance tool = Some compiler" and "run tool = Some (Inr (ret, text))"
  shows "hasSourceManager compiler \<and> ret = status tool
       \<and> (\<exists>c. HandleTranslationUnit compiler
               \<lparr>smartRewriter = removeRanges SmartRewriter_new (preprocessorRequests compiler),
                rewriter = [], result = []\<rparr> = Some (Inr c)
             \<and> text = result c)"
  using assms
  by (auto simp: run_def CreateASTConsumer_def split: if_splits option.splits sum.splits)


subsection \<open>The small translation unit, evaluated\<close>

lemma exampleText: "rawCommentText exampleAST 1 = Some ''/// caide keep''"
  by code_simp

lemma exampleCollected:
  "collectDependencies exampleAST exampleTU =
     \<lparr>uses = [(1, [11]), (2, [1]), (3, [11]), (4, [11]), (5, [11]), (6, [11]),
              (7, [11]), (8, [11]), (9, [11]), (10, [4, 11])],
      declsToKeep = [1, 10], delayedParsedFunctions = [],
      staticVariables = [(36, [3, 4, 5])]\<rparr>"
  by code_simp

lemma exampleSolver_run:
  "Solver_run exampleAST (collectDependencies exampleAST exampleTU) = Some exampleSolved"
  by code_simp


section \<open>The claims\<close>

text \<open>
  C1. The roots the dependencies collector produces, starting from an empty
  \<open>SourceInfo\<close>, are exactly the visited function declarations for which \<open>isMain\<close>
  holds, together with the visited declarations whose start the source manager places in
  the main file (it decides by the expansion location) and whose attached raw comment
  contains the text "caide keep". Nothing else becomes a root.
\<close>

theorem declsToKeep_exactly_roots:
  "set (declsToKeep (collectDependencies ast root)) =
     {d \<in> set (visitedDecls root).
        isa_FunctionDecl (kindOf ast d) \<and> isMain (valueDecls ast d)}
     \<union> {d \<in> set (visitedDecls root).
        isInMainFile ast (getLocStart (decls ast d))
        \<and> (\<exists>text. rawCommentText ast d = Some text \<and> sublist ''caide keep'' text)}"
  by (auto simp: collectDependencies_def declsToKeep_Traverse(1) SourceInfo_new_def isRoot_def)

theorem declsToKeep_exactly_roots_witness:
  "declsToKeep (collectDependencies exampleAST exampleTU) = [1, 10]
   \<and> {d \<in> set (visitedDecls exampleTU).
        isa_FunctionDecl (kindOf exampleAST d) \<and> isMain (valueDecls exampleAST d)}
     \<union> {d \<in> set (visitedDecls exampleTU).
        isInMainFile exampleAST (getLocStart (decls exampleAST d))
        \<and> (\<exists>text. rawCommentText exampleAST d = Some text \<and> sublist ''caide keep'' text)}
     = {1, 10}"
  using declsToKeep_exactly_roots [of exampleAST exampleTU, symmetric]
  by (simp add: exampleCollected)

text \<open>
  C2. The worklist loop of the reachability solver ends, and in the set \<open>used\<close> it ends
  with, every class record that has a destructor has that destructor too; a destructor
  whose expansion range begins in the main file is then also used according to
  \<open>UsageInfo\<close>.
\<close>

theorem used_record_destructor_used:
  "\<exists>s. Solver_run ast si = Some s \<and> queue s = []
      \<and> (\<forall>r \<in> set (used s). isa_CXXRecordDecl (kindOf ast r) \<longrightarrow>
           (\<forall>x. getDestructor (typeDecls ast r) = Some x \<longrightarrow>
              x \<in> set (used s)
              \<and> (isInMainFile ast (getBegin (getExpansionRange ast x)) \<longrightarrow>
                   isUsed ast (usageInfo s) x)))"
proof -
  obtain s where run: "Solver_run ast si = Some s"
    using Solver_run_terminates by blast
  have stop: "queue s = []"
    using while_option_stop [OF run [unfolded Solver_run_def]] by simp
  have init: "destructorsKept ast (Solver_init ast si) \<and> usageRecorded ast (Solver_init ast si)"
    by (simp add: destructorsKept_def usageRecorded_def Solver_init_def)
  have "destructorsKept ast s \<and> usageRecorded ast s"
    by (rule while_option_rule [where P = "\<lambda>s. destructorsKept ast s \<and> usageRecorded ast s",
          OF _ run [unfolded Solver_run_def] init])
      (simp add: destructorsKept_step usageRecorded_step)
  then have "\<forall>r \<in> set (used s). isa_CXXRecordDecl (kindOf ast r) \<longrightarrow>
           (\<forall>x. getDestructor (typeDecls ast r) = Some x \<longrightarrow>
              x \<in> set (used s)
              \<and> (isInMainFile ast (getBegin (getExpansionRange ast x)) \<longrightarrow>
                   isUsed ast (usageInfo s) x))"
    using stop unfolding destructorsKept_def usageRecorded_def
    by (auto simp: isUsed_def)
  with run stop show ?thesis by blast
qed

theorem used_record_destructor_used_witness:
  "Solver_run exampleAST (collectDependencies exampleAST exampleTU) = Some exampleSolved
   \<and> 1 \<in> set (used exampleSolved)
   \<and> isa_CXXRecordDecl (kindOf exampleAST 1)
   \<and> getDestructor (typeDecls exampleAST 1) = Some 2
   \<and> 2 \<in> set (used exampleSolved)
   \<and> isInMainFile exampleAST (getBegin (getExpansionRange exampleAST 2))
   \<and> isUsed exampleAST (usageInfo exampleSolved) 2"
proof -
  have a: "1 \<in> set (used exampleSolved)" by (simp add: exampleSolved_def)
  have b: "isa_CXXRecordDecl (kindOf exampleAST 1)" by code_simp
  have c: "getDestructor (typeDecls exampleAST 1) = Some 2" by code_simp
  have d: "isInMainFile exampleAST (getBegin (getExpansionRange exampleAST 2))" by code_simp
  from used_record_destructor_used [of exampleAST "collectDependencies exampleAST exampleTU"]
  show ?thesis
    using a b c d by (auto simp: exampleSolver_run)
qed

text \<open>
  C3, as stated: the pruner submits a removal for every unused variable before
  \<open>lastUsed\<close>. That fails where no comma is found after a declarator, as when the comma
  comes from a macro: with \<open>b\<close> the only used variable of \<open>int a, b, c;\<close> and no comma
  found after \<open>a\<close>, the specification asks for a removal for \<open>a\<close> and for the tail, and the
  pruner submits only the tail.
\<close>

theorem pruner_invalid_comma_counterexample:
  "removeUnusedVariables_group exampleAST_noComma exampleUsage (36, [3, 4, 5])
     = Some [removal (SourceRange 44 46)]
   \<and> specifiedRemovals exampleAST_noComma 36 [3, 4, 5]
        (usageFlags exampleAST_noComma exampleUsage [3, 4, 5])
     = [SourceRange 40 0, SourceRange 44 46]"
  by code_simp

text \<open>
  C3, amended. For a group of \<open>n\<close> variables with usage flags \<open>isUsed[i]\<close>, the pruner
  computes \<open>lastUsed\<close> as the index of the last used variable, or \<open>n\<close> when none is used.
  When \<open>lastUsed = n\<close> it submits one removal, from the shared type start through the
  location of the terminating semicolon. Otherwise it submits, for each unused variable
  \<open>i < lastUsed\<close> whose name location and whose end extended through the following comma
  are both valid locations, the removal from the one to the other, and, when
  \<open>lastUsed + 1 < n\<close>, one removal from the comma after variable \<open>lastUsed\<close> to the end of
  the last variable. Every removal asks for empty lines to be removed. The groups the
  collector records are never empty (lemma \<open>removeUnusedVariables_collected\<close>), so the
  pruner reads \<open>vars.back()\<close> of a non-empty vector.
\<close>

theorem removeUnusedVariables_group_removals:
  assumes "vars \<noteq> []"
  shows "lastUsedIndex (usageFlags ast usage vars) =
       (if \<exists>i<length vars. usageFlags ast usage vars ! i
        then Max {i. i < length vars \<and> usageFlags ast usage vars ! i} else length vars)
   \<and> removeUnusedVariables_group ast usage (startOfType, vars) =
     Some (map removal
       (let isUsedv = usageFlags ast usage vars; n = length vars;
            lastUsed = lastUsedIndex isUsedv
        in if lastUsed = n then [wholeGroupRemoval ast startOfType vars]
           else
             map (variableRemoval ast vars)
               (filter (\<lambda>i. \<not> isUsedv ! i \<and> isValid (getBegin (variableRemoval ast vars i))
                              \<and> isValid (getEnd (variableRemoval ast vars i))) [0..<lastUsed])
             @ (if lastUsed + 1 < n then [tailRemoval ast vars lastUsed] else [])))"
proof -
  have len: "length (usageFlags ast usage vars) = length vars"
    by (simp add: usageFlags_def)
  have "lastUsedIndex (usageFlags ast usage vars) =
       (if \<exists>i<length vars. usageFlags ast usage vars ! i
        then Max {i. i < length vars \<and> usageFlags ast usage vars ! i} else length vars)"
    by (simp only: lastUsedIndex_eq len)
  then show ?thesis
    using removeUnusedVariables_group_eq [OF assms] by blast
qed

theorem removeUnusedVariables_group_removals_witness:
  "[3, 4, 5] \<noteq> ([] :: decl list)
   \<and> usageFlags exampleAST exampleUsage [3, 4, 5] = [False, True, False]
   \<and> lastUsedIndex [False, True, False] = 1
   \<and> removeUnusedVariables_group exampleAST exampleUsage (36, [3, 4, 5])
       = Some [removal (SourceRange 40 41), removal (SourceRange 44 46)]"
proof -
  have a: "usageFlags exampleAST exampleUsage [3, 4, 5] = [False, True, False]" by code_simp
  have b: "lastUsedIndex [False, True, False] = 1" by code_simp
  have c: "removeUnusedVariables_group exampleAST exampleUsage (36, [3, 4, 5])
       = Some [removal (SourceRange 40 41), removal (SourceRange 44 46)]" by code_simp
  have d: "[3, 4, 5] \<noteq> ([] :: decl list)" by simp
  show ?thesis
    using removeUnusedVariables_group_removals [OF d, of exampleAST exampleUsage 36] a b c d
    by blast
qed

text \<open>
  C4. \<open>removeRange(r, opts)\<close> returns true and records \<open>(r, opts)\<close> in the accepted set when
  \<open>canRemoveRange(r)\<close> holds, and returns false and changes nothing otherwise; after any
  sequence of \<open>removeRange\<close> calls on a new rewriter, no two accepted items overlap.
\<close>

theorem removeRange_iff_canRemoveRange:
  "(canRemoveRange rw r \<longrightarrow>
      fst (removeRange rw r opts)
      \<and> set (removed (snd (removeRange rw r opts)))
          = insert \<lparr>item_range = r, item_opts = opts\<rparr> (set (removed rw)))
   \<and> (\<not> canRemoveRange rw r \<longrightarrow>
      \<not> fst (removeRange rw r opts) \<and> snd (removeRange rw r opts) = rw)
   \<and> nonOverlapping (removed (removeRanges SmartRewriter_new items))"
proof -
  have "nonOverlapping (removed SmartRewriter_new)"
    by (simp add: SmartRewriter_new_def nonOverlapping_def)
  then have "nonOverlapping (removed (removeRanges SmartRewriter_new items))"
    by (rule nonOverlapping_removeRanges)
  then show ?thesis
    by (simp add: removeRange_def set_record_item)
qed

theorem removeRange_iff_canRemoveRange_witness:
  "canRemoveRange exampleRewriter (SourceRange 10 12)
   \<and> removeRange exampleRewriter (SourceRange 10 12) \<lparr>RemoveLineIfEmpty = True\<rparr>
       = (True, \<lparr>removed = [removal (SourceRange 1 5), removal (SourceRange 10 12)],
                 changesApplied = False\<rparr>)
   \<and> \<not> canRemoveRange exampleRewriter (SourceRange 3 8)
   \<and> removeRange exampleRewriter (SourceRange 3 8) \<lparr>RemoveLineIfEmpty = True\<rparr>
       = (False, exampleRewriter)
   \<and> nonOverlapping (removed (removeRanges SmartRewriter_new
        [removal (SourceRange 1 5), removal (SourceRange 3 8), removal (SourceRange 10 12)]))"
proof -
  have a: "canRemoveRange exampleRewriter (SourceRange 10 12)" by code_simp
  have b: "\<not> canRemoveRange exampleRewriter (SourceRange 3 8)" by code_simp
  have c: "removeRange exampleRewriter (SourceRange 10 12) \<lparr>RemoveLineIfEmpty = True\<rparr>
       = (True, \<lparr>removed = [removal (SourceRange 1 5), removal (SourceRange 10 12)],
                 changesApplied = False\<rparr>)" by code_simp
  have d: "removeRange exampleRewriter (SourceRange 3 8) \<lparr>RemoveLineIfEmpty = True\<rparr>
       = (False, exampleRewriter)" by code_simp
  show ?thesis
    using a b c d
      removeRange_iff_canRemoveRange [of exampleRewriter "SourceRange 10 12"
        "\<lparr>RemoveLineIfEmpty = True\<rparr>"
        "[removal (SourceRange 1 5), removal (SourceRange 3 8), removal (SourceRange 10 12)]"]
    by simp
qed

text \<open>
  C5. \<open>insertReference\<close> drops an edge when either endpoint is null; otherwise it inserts
  the edge between the endpoints, each replaced by its canonical declaration unless it
  is a namespace. Every vertex of the \<open>uses\<close> map the collector produces is therefore a
  namespace declaration or the canonical declaration of some declaration.
\<close>

theorem uses_vertices_canonical_or_namespace:
  "insertReference ast None to si = si
   \<and> insertReference ast from None si = si
   \<and> insertReference ast (Some f) (Some t) si =
       addEdge (if kindOf ast f = NamespaceDecl then f else getCanonicalDecl (decls ast f))
         (if kindOf ast t = NamespaceDecl then t else getCanonicalDecl (decls ast t)) si
   \<and> (\<forall>v \<in> vertices (uses (collectDependencies ast root)).
        kindOf ast v = NamespaceDecl \<or> (\<exists>d. v = getCanonicalDecl (decls ast d)))"
proof -
  have "usesWellFormed ast (collectDependencies ast root)"
    unfolding collectDependencies_def
    by (rule usesWellFormed_Traverse(1)) (simp add: usesWellFormed_def SourceInfo_new_def)
  then show ?thesis
    by (auto simp: usesWellFormed_def canonicalOrNamespace_def insertReference_def addEdge_def
        Let_def split: option.splits)
qed

theorem uses_vertices_canonical_or_namespace_witness:
  "insertReference exampleAST (Some 10) (Some 4) SourceInfo_new = addEdge 10 4 SourceInfo_new
   \<and> 4 \<in> vertices (uses (collectDependencies exampleAST exampleTU))
   \<and> (kindOf exampleAST 4 = NamespaceDecl \<or> (\<exists>d. 4 = getCanonicalDecl (decls exampleAST d)))"
proof -
  have a: "4 \<in> vertices (uses (collectDependencies exampleAST exampleTU))"
    by (simp add: exampleCollected)
  have b: "kindOf exampleAST 10 \<noteq> NamespaceDecl" "kindOf exampleAST 4 \<noteq> NamespaceDecl"
    "getCanonicalDecl (decls exampleAST 10) = 10" "getCanonicalDecl (decls exampleAST 4) = 4"
    by code_simp+
  show ?thesis
    using uses_vertices_canonical_or_namespace [of exampleAST _ SourceInfo_new _ 10 4 exampleTU]
      a b
    by auto
qed

text \<open>
  C6, as stated: the first using-directive naming a namespace is kept. That fails when
  a declaration that encloses it is deleted: in
  \<^verbatim>\<open>namespace N { }\<close> \<^verbatim>\<open>void f(){using namespace N;}\<close> \<^verbatim>\<open>using namespace N;\<close>
  with \<open>f\<close> unused, the first directive (declaration 7, at 74 to 90) goes with \<open>f\<close> (65 to
  92), and the second (declaration 8) is deleted as a duplicate, the set
  \<open>usedNamespaces\<close> being one for the whole traversal. All three removals are accepted.
\<close>

theorem using_directive_first_deleted_counterexample:
  "map_option usageInfo
      (Solver_run exampleAST_nested (collectDependencies exampleAST_nested exampleTU_nested))
     = Some exampleUsage
   \<and> visitedDecls exampleTU_nested = [11, 1, 2, 3, 4, 5, 6, 9, 7, 8, 10]
   \<and> usingDirectiveFor exampleAST_nested 6 7
   \<and> usingDirectiveFor exampleAST_nested 6 8
   \<and> getExpansionRange exampleAST_nested 7 = SourceRange 74 90
   \<and> removals (Optimizer_Traverse exampleAST_nested exampleUsage
        [11, 1, 2, 3, 4, 5, 6, 9, 7, 8, 10] OptimizerVisitor_new)
     = [removal (SourceRange 49 63), removal (SourceRange 65 92), removal (SourceRange 94 111)]
   \<and> removed (removeRanges SmartRewriter_new
        [removal (SourceRange 49 63), removal (SourceRange 65 92), removal (SourceRange 94 111)])
     = [removal (SourceRange 49 63), removal (SourceRange 65 92), removal (SourceRange 94 111)]"
  by code_simp

text \<open>
  C6, amended. After the optimizer visitor has visited the declarations \<open>earlier\<close>,
  \<open>usedNamespaces\<close> holds the namespaces nominated by the using-directives of the main
  file among them, and the visit of a using-directive submits the removal of that
  directive exactly when the directive is in the main file and an earlier visited
  using-directive of the main file nominates the same namespace. So the visit of the
  first using-directive for a namespace submits nothing, and the visit of every later
  one submits its deletion.
\<close>

theorem using_directive_removed_iff_duplicate:
  assumes "kindOf ast u = UsingDirectiveDecl"
  shows "set (usedNamespaces (Optimizer_Traverse ast usage earlier OptimizerVisitor_new))
           = {ns. \<exists>w \<in> set earlier. usingDirectiveFor ast ns w}
       \<and> removals (Optimizer_WalkUpFromDecl ast usage
             (Optimizer_Traverse ast usage earlier OptimizerVisitor_new) u) =
         removals (Optimizer_Traverse ast usage earlier OptimizerVisitor_new)
         @ (if isInMainFile ast (getLocStart (decls ast u))
               \<and> (\<exists>ns. getNominatedNamespace (templateDecls ast u) = Some ns
                     \<and> (\<exists>w \<in> set earlier. usingDirectiveFor ast ns w))
            then removeDecl ast (Some u) else [])"
proof -
  define v where "v = Optimizer_Traverse ast usage earlier OptimizerVisitor_new"
  have mem: "set (usedNamespaces v) = {ns. \<exists>w \<in> set earlier. usingDirectiveFor ast ns w}"
    unfolding v_def by (simp add: usedNamespaces_Traverse OptimizerVisitor_new_def)
  have "removals (Optimizer_WalkUpFromDecl ast usage v u) =
         removals v
         @ (if isInMainFile ast (getLocStart (decls ast u))
               \<and> (\<exists>ns. getNominatedNamespace (templateDecls ast u) = Some ns
                     \<and> ns \<in> set (usedNamespaces v))
            then removeDecl ast (Some u) else [])"
    using assms
    by (auto simp: Optimizer_WalkUpFromDecl_def VisitUsingDirectiveDecl_def Let_def
        callRemoveDecl_def split: option.splits)
  then show ?thesis
    unfolding v_def [symmetric] by (simp add: mem)
qed

theorem using_directive_removed_iff_duplicate_witness:
  "kindOf exampleAST 8 = UsingDirectiveDecl
   \<and> kindOf exampleAST 7 = UsingDirectiveDecl
   \<and> usingDirectiveFor exampleAST 6 7
   \<and> removals (Optimizer_Traverse exampleAST exampleUsage [11, 1, 2, 3, 4, 5, 6]
         OptimizerVisitor_new) = [removal (SourceRange 49 63)]
   \<and> removals (Optimizer_Traverse exampleAST exampleUsage [11, 1, 2, 3, 4, 5, 6, 7]
         OptimizerVisitor_new) = [removal (SourceRange 49 63)]
   \<and> set (usedNamespaces (Optimizer_Traverse exampleAST exampleUsage
         [11, 1, 2, 3, 4, 5, 6, 7] OptimizerVisitor_new)) = {6}
   \<and> removals (Optimizer_WalkUpFromDecl exampleAST exampleUsage
         (Optimizer_Traverse exampleAST exampleUsage [11, 1, 2, 3, 4, 5, 6, 7]
            OptimizerVisitor_new) 8)
       = [removal (SourceRange 49 63), removal (SourceRange 84 101)]"
proof -
  have a: "kindOf exampleAST 8 = UsingDirectiveDecl" "kindOf exampleAST 7 = UsingDirectiveDecl"
    by code_simp+
  have b: "usingDirectiveFor exampleAST 6 7" by code_simp
  have c: "removals (Optimizer_Traverse exampleAST exampleUsage [11, 1, 2, 3, 4, 5, 6]
         OptimizerVisitor_new) = [removal (SourceRange 49 63)]" by code_simp
  have d: "removals (Optimizer_Traverse exampleAST exampleUsage [11, 1, 2, 3, 4, 5, 6, 7]
         OptimizerVisitor_new) = [removal (SourceRange 49 63)]" by code_simp
  have e: "isInMainFile exampleAST (getLocStart (decls exampleAST 8))" by code_simp
  have f: "getNominatedNamespace (templateDecls exampleAST 8) = Some 6" by code_simp
  have g: "removeDecl exampleAST (Some 8) = [removal (SourceRange 84 101)]" by code_simp
  have h: "set (usedNamespaces (Optimizer_Traverse exampleAST exampleUsage
         [11, 1, 2, 3, 4, 5, 6, 7] OptimizerVisitor_new)) = {6}" by code_simp
  show ?thesis
    using using_directive_removed_iff_duplicate
        [OF a(1), of exampleUsage "[11, 1, 2, 3, 4, 5, 6, 7]"]
      a b c d e f g h
    by auto
qed

text \<open>
  C7. Removing a declaration submits its expansion range, with the end moved to the
  semicolon that follows when there is one, with \<open>RemoveLineIfEmpty\<close> set; when the
  declaration has an attached raw comment, the comment's source range is submitted
  next, with the same option.
\<close>

theorem removeDecl_protocol:
  "removals (callRemoveDecl ast d v) =
     removals v
     @ \<lparr>item_range =
          SourceRange (getExpansionStart ast d)
            (if isValid (findSemiAfterLocation ast (getExpansionEnd ast d))
             then findSemiAfterLocation ast (getExpansionEnd ast d)
             else getExpansionEnd ast d),
        item_opts = \<lparr>RemoveLineIfEmpty = True\<rparr>\<rparr>
     # (case getRawCommentForDeclNoCache (decls ast d) of
          None \<Rightarrow> []
        | Some comment \<Rightarrow>
            [\<lparr>item_range = getSourceRange comment,
              item_opts = \<lparr>RemoveLineIfEmpty = True\<rparr>\<rparr>])"
  by (simp add: callRemoveDecl_def removeDecl_def Let_def)

theorem removeDecl_protocol_witness:
  "removals (callRemoveDecl exampleAST 1 OptimizerVisitor_new)
     = [removal (SourceRange 16 34), removal (SourceRange 1 14)]"
proof -
  have a: "getExpansionStart exampleAST 1 = 16" "getExpansionEnd exampleAST 1 = 33"
    "findSemiAfterLocation exampleAST 33 = 34"
    "getRawCommentForDeclNoCache (decls exampleAST 1)
       = Some \<lparr>getSourceRange = SourceRange 1 14\<rparr>"
    by code_simp+
  show ?thesis
    using removeDecl_protocol [of exampleAST 1 OptimizerVisitor_new]
    by (simp add: a isValid_def OptimizerVisitor_new_def removal_def)
qed

text \<open>
  C8. When the front-end run returns a non-zero status, \<open>doOptimize\<close> raises the
  run-time error "Compilation error" and returns no text; when the run returns zero it
  returns the text the consumer stored in \<open>result\<close>. For a run that returns and in which
  the front end has handed the unit to the consumer, \<open>HandleTranslationUnit\<close> has
  returned, the rewriter has executed the accepted removals, and the stored text is the
  rewriter's text of the main file when it holds one, and the original text of the main
  file when it holds none and the source manager supplies the buffer. Such a run
  returns whenever the compiler has a source manager and the late-template parser does
  not raise.
\<close>

theorem doOptimize_status:
  "(ret \<noteq> 0 \<longrightarrow> doOptimize (Inr (ret, text)) = Inl (runtime_error ''Compilation error''))
   \<and> (ret = 0 \<longrightarrow> doOptimize (Inr (ret, text)) = Inr text)
   \<and> (compilerInstance tool = Some compiler \<and> run tool = Some (Inr (ret, text)) \<longrightarrow>
        ret = status tool
        \<and> map_option doOptimize (run tool)
            = Some (if ret \<noteq> 0 then Inl (runtime_error ''Compilation error'') else Inr text)
        \<and> (\<exists>c. HandleTranslationUnit compiler
               \<lparr>smartRewriter = removeRanges SmartRewriter_new (preprocessorRequests compiler),
                rewriter = [], result = []\<rparr> = Some (Inr c)
            \<and> text = result c
            \<and> rewriter c = removed (smartRewriter c)
            \<and> (\<forall>rewritten. getRewriteBufferFor compiler (rewriter c) = Some rewritten \<longrightarrow>
                  text = rewritten)
            \<and> (\<forall>original. getRewriteBufferFor compiler (rewriter c) = None
                  \<and> getBuffer compiler = (Some original, False) \<longrightarrow> text = original)))
   \<and> (compilerInstance tool = Some compiler \<and> hasSourceManager compiler
        \<and> (\<forall>f s. \<exists>s'. lateTemplateParser compiler f s = Inr s') \<longrightarrow>
        (\<exists>rewritten. run tool = Some (Inr (status tool, rewritten))))"
proof -
  have tail: "(ret \<noteq> 0 \<longrightarrow>
        doOptimize (Inr (ret, text)) = Inl (runtime_error ''Compilation error''))
      \<and> (ret = 0 \<longrightarrow> doOptimize (Inr (ret, text)) = Inr text)"
    by (simp add: doOptimize_def)
  define c0 where "c0 =
      \<lparr>smartRewriter = removeRanges SmartRewriter_new (preprocessorRequests compiler),
       rewriter = [], result = []\<rparr>"
  have returned: "ret = status tool
        \<and> map_option doOptimize (run tool)
            = Some (if ret \<noteq> 0 then Inl (runtime_error ''Compilation error'') else Inr text)
        \<and> (\<exists>c. HandleTranslationUnit compiler c0 = Some (Inr c)
            \<and> text = result c
            \<and> rewriter c = removed (smartRewriter c)
            \<and> (\<forall>rewritten. getRewriteBufferFor compiler (rewriter c) = Some rewritten \<longrightarrow>
                  text = rewritten)
            \<and> (\<forall>original. getRewriteBufferFor compiler (rewriter c) = None
                  \<and> getBuffer compiler = (Some original, False) \<longrightarrow> text = original))"
    if tu: "compilerInstance tool = Some compiler" and r: "run tool = Some (Inr (ret, text))"
  proof -
    obtain c where ret: "ret = status tool"
      and c: "HandleTranslationUnit compiler c0 = Some (Inr c)" and t: "text = result c"
      using run_returned [OF tu r] unfolding c0_def by blast
    have res: "result c = getResult (getRewriteBufferFor compiler (rewriter c))
                          (fst (getBuffer compiler)) (snd (getBuffer compiler))"
      by (rule HandleTranslationUnit_result(1) [OF c])
    have r1: "rewriter c = removed (smartRewriter c)"
      using HandleTranslationUnit_result(2) [OF c] by (simp add: c0_def SmartRewriter_new_def)
    have r2: "\<forall>rewritten. getRewriteBufferFor compiler (rewriter c) = Some rewritten \<longrightarrow>
                text = rewritten"
      using res t by simp
    have r3: "\<forall>original. getRewriteBufferFor compiler (rewriter c) = None
                \<and> getBuffer compiler = (Some original, False) \<longrightarrow> text = original"
      using res t by simp
    have r5: "map_option doOptimize (run tool)
              = Some (if ret \<noteq> 0 then Inl (runtime_error ''Compilation error'') else Inr text)"
      by (simp add: r doOptimize_def)
    from ret c t r1 r2 r3 r5 show ?thesis by blast
  qed
  have total: "\<exists>rewritten. run tool = Some (Inr (status tool, rewritten))"
    if tu: "compilerInstance tool = Some compiler" and sm: "hasSourceManager compiler"
      and parser: "\<forall>f s. \<exists>s'. lateTemplateParser compiler f s = Inr s'"
  proof -
    obtain c where c: "HandleTranslationUnit compiler c0 = Some (Inr c)"
      using HandleTranslationUnit_returns [OF parser, of c0] by blast
    then have "run tool = Some (Inr (status tool, result c))"
      by (simp add: run_def tu sm CreateASTConsumer_def c0_def)
    then show ?thesis by blast
  qed
  from tail returned total show ?thesis unfolding c0_def by blast
qed

theorem doOptimize_status_witness:
  "compilerInstance exampleTool = Some exampleCompiler
   \<and> hasSourceManager exampleCompiler
   \<and> status exampleTool = 0
   \<and> run exampleTool
      = Some (Inr (0, exampleRewritten))
   \<and> getRewriteBufferFor exampleCompiler
        [removal (SourceRange 40 41), removal (SourceRange 44 46), removal (SourceRange 49 63),
         removal (SourceRange 84 101), removal (SourceRange 103 116)]
      = Some exampleRewritten
   \<and> map_option doOptimize (run exampleTool)
      = Some (Inr exampleRewritten)
   \<and> map_option doOptimize (run (exampleTool\<lparr>status := 1\<rparr>))
      = Some (Inl (runtime_error ''Compilation error''))"
proof -
  have a: "compilerInstance exampleTool = Some exampleCompiler"
    "hasSourceManager exampleCompiler" "status exampleTool = 0"
    by (simp_all add: exampleTool_def exampleCompiler_def)
  have b: "\<forall>f s. \<exists>s'. lateTemplateParser exampleCompiler f s = Inr s'"
    by (simp add: exampleCompiler_def exampleParser_def)
  have c: "run exampleTool = Some (Inr (0, exampleRewritten))"
    by code_simp
  have d: "getRewriteBufferFor exampleCompiler
        [removal (SourceRange 40 41), removal (SourceRange 44 46), removal (SourceRange 49 63),
         removal (SourceRange 84 101), removal (SourceRange 103 116)]
      = Some exampleRewritten"
    by code_simp
  have e: "compilerInstance (exampleTool\<lparr>status := 1\<rparr>) = Some exampleCompiler"
    by (simp add: exampleTool_def)
  have f: "run (exampleTool\<lparr>status := 1\<rparr>) = Some (Inr (1, exampleRewritten))"
    by code_simp
  show ?thesis
    using
      doOptimize_status [of 0 exampleRewritten exampleTool exampleCompiler]
      doOptimize_status [of 1 exampleRewritten "exampleTool\<lparr>status := 1\<rparr>" exampleCompiler]
      a b c d e f
    by auto
qed

text \<open>
  C9, as stated: diagnostics are re-enabled on every exit path of the forcing step,
  exceptional ones included. The source sets and clears the flag with two plain
  statements around the loop; when the parser callback raises, the step is left with
  diagnostics still suppressed.
\<close>

theorem forcing_exception_counterexample:
  "forceDelayedParsedFunctions throwingParser [9] exampleSema
     = Inl (runtime_error ''late parse'', \<lparr>suppressAllDiagnostics = True, lateParsed = []\<rparr>)"
  by (simp add: forceDelayedParsedFunctions_def throwingParser_def exampleSema_def)

text \<open>
  C9, amended. Diagnostics are suppressed before the first delayed function is forced
  and re-enabled after the last one. Whenever the forcing step returns, diagnostics are
  enabled, and it returns whenever the parser callback does not raise. The first call of
  the callback is made with diagnostics suppressed, and an exception it raises leaves
  the step as it is. As long as the callback does not re-enable diagnostics itself, it
  is only ever called with diagnostics suppressed: what it would do with diagnostics
  enabled has no bearing on the outcome.
\<close>

theorem forcing_reenables_on_return:
  "(forceDelayedParsedFunctions parser delayed sema = Inr sema' \<longrightarrow>
      \<not> suppressAllDiagnostics sema')
   \<and> ((\<forall>f s. \<exists>s'. parser f s = Inr s') \<longrightarrow>
      (\<exists>s'. forceDelayedParsedFunctions parser delayed sema = Inr s'
            \<and> \<not> suppressAllDiagnostics s'))
   \<and> (parser f (sema\<lparr>suppressAllDiagnostics := True\<rparr>) = Inl thrown \<longrightarrow>
        forceDelayedParsedFunctions parser (f # fs) sema = Inl thrown)
   \<and> ((\<forall>f s s'. suppressAllDiagnostics s \<and> parser f s = Inr s' \<longrightarrow> suppressAllDiagnostics s')
        \<and> (\<forall>f s. suppressAllDiagnostics s \<longrightarrow> parser' f s = parser f s) \<longrightarrow>
      forceDelayedParsedFunctions parser' delayed sema
        = forceDelayedParsedFunctions parser delayed sema)"
proof -
  have a: "forceDelayedParsedFunctions parser delayed sema = Inr sema' \<longrightarrow>
      \<not> suppressAllDiagnostics sema'"
    by (auto simp: forceDelayedParsedFunctions_def split: sum.splits)
  have b: "(\<forall>f s. \<exists>s'. parser f s = Inr s') \<longrightarrow>
      (\<exists>s'. forceDelayedParsedFunctions parser delayed sema = Inr s'
            \<and> \<not> suppressAllDiagnostics s')"
  proof
    assume "\<forall>f s. \<exists>s'. parser f s = Inr s'"
    then obtain s1 where
      "forceParsing parser delayed (sema\<lparr>suppressAllDiagnostics := True\<rparr>) = Inr s1"
      using forceParsing_no_throw [of parser delayed] by blast
    then show "\<exists>s'. forceDelayedParsedFunctions parser delayed sema = Inr s'
            \<and> \<not> suppressAllDiagnostics s'"
      by (simp add: forceDelayedParsedFunctions_def)
  qed
  have c: "parser f (sema\<lparr>suppressAllDiagnostics := True\<rparr>) = Inl thrown \<longrightarrow>
        forceDelayedParsedFunctions parser (f # fs) sema = Inl thrown"
    by (simp add: forceDelayedParsedFunctions_def)
  have d: "(\<forall>f s s'. suppressAllDiagnostics s \<and> parser f s = Inr s' \<longrightarrow> suppressAllDiagnostics s')
        \<and> (\<forall>f s. suppressAllDiagnostics s \<longrightarrow> parser' f s = parser f s) \<longrightarrow>
      forceDelayedParsedFunctions parser' delayed sema
        = forceDelayedParsedFunctions parser delayed sema"
  proof
    assume h: "(\<forall>f s s'. suppressAllDiagnostics s \<and> parser f s = Inr s'
                  \<longrightarrow> suppressAllDiagnostics s')
        \<and> (\<forall>f s. suppressAllDiagnostics s \<longrightarrow> parser' f s = parser f s)"
    have "forceParsing parser' delayed (sema\<lparr>suppressAllDiagnostics := True\<rparr>)
        = forceParsing parser delayed (sema\<lparr>suppressAllDiagnostics := True\<rparr>)"
      by (rule forceParsing_agree [where parser = parser]) (use h in auto)
    then show "forceDelayedParsedFunctions parser' delayed sema
        = forceDelayedParsedFunctions parser delayed sema"
      by (simp add: forceDelayedParsedFunctions_def)
  qed
  from a b c d show ?thesis by blast
qed

theorem forcing_reenables_on_return_witness:
  "strictParser 9 exampleSema = Inl (runtime_error ''diagnostic'', exampleSema)
   \<and> forceDelayedParsedFunctions strictParser [9, 10] exampleSema
       = Inr \<lparr>suppressAllDiagnostics = False, lateParsed = [9, 10]\<rparr>
   \<and> forceDelayedParsedFunctions exampleParser [9, 10] exampleSema
       = Inr \<lparr>suppressAllDiagnostics = False, lateParsed = [9, 10]\<rparr>
   \<and> (\<exists>s'. exampleParser 9 exampleSema = Inr s')"
proof -
  have a: "forceDelayedParsedFunctions exampleParser [9, 10] exampleSema
       = Inr \<lparr>suppressAllDiagnostics = False, lateParsed = [9, 10]\<rparr>"
    by code_simp
  have b: "\<forall>f s. \<exists>s'. exampleParser f s = Inr s'"
    by (simp add: exampleParser_def)
  have c: "\<forall>f s s'. suppressAllDiagnostics s \<and> exampleParser f s = Inr s'
             \<longrightarrow> suppressAllDiagnostics s'"
    by (auto simp: exampleParser_def)
  have d: "\<forall>f s. suppressAllDiagnostics s \<longrightarrow> strictParser f s = exampleParser f s"
    by (simp add: strictParser_def)
  have e: "strictParser 9 exampleSema = Inl (runtime_error ''diagnostic'', exampleSema)"
    by (simp add: strictParser_def exampleSema_def)
  show ?thesis
    using forcing_reenables_on_return [of exampleParser "[9, 10]" exampleSema
        "\<lparr>suppressAllDiagnostics = False, lateParsed = [9, 10]\<rparr>" _ _ _ strictParser]
      a b c d e
    by simp
qed



end
